theory Spec2Isabelle
  imports Main
begin

section \<open>JavaScript values\<close>

text \<open>
  Results, errors and parameters of a request are JavaScript values. \<open>Undefined\<close> is
  the value of an unset field.
\<close>

datatype jsval =
  Undefined
  | Null
  | JBool bool
  | JNum int
  | JStr string
  | JArr "jsval list"
  | JObj "(string \<times> jsval) list"

fun truthy :: "jsval \<Rightarrow> bool" where
  "truthy Undefined = False"
| "truthy Null = False"
| "truthy (JBool b) = b"
| "truthy (JNum n) = (n \<noteq> 0)"
| "truthy (JStr s) = (s \<noteq> [])"
| "truthy (JArr xs) = True"
| "truthy (JObj fs) = True"

text \<open>
  Arrays and objects are compared by identity in JavaScript, the other values by
  content.
\<close>

fun is_object :: "jsval \<Rightarrow> bool" where
  "is_object (JArr xs) = True"
| "is_object (JObj fs) = True"
| "is_object v = False"

fun isArray :: "jsval \<Rightarrow> bool" where
  "isArray (JArr xs) = True"
| "isArray v = False"

fun elems :: "jsval \<Rightarrow> jsval list" where
  "elems (JArr xs) = xs"
| "elems v = []"

fun getProp :: "jsval \<Rightarrow> string \<Rightarrow> jsval" where
  "getProp (JObj fs) p = (case map_of fs p of None \<Rightarrow> Undefined | Some v \<Rightarrow> v)"
| "getProp v p = Undefined"

fun split_path :: "string \<Rightarrow> string \<Rightarrow> string list" where
  "split_path acc [] = [acc]"
| "split_path acc (c # cs) =
     (if c = CHR ''.'' then acc # split_path [] cs else split_path (acc @ [c]) cs)"

fun get_walk :: "jsval \<Rightarrow> string list \<Rightarrow> jsval" where
  "get_walk v [] = v"
| "get_walk v (p # ps) =
     (let r = getProp v p in if r = Undefined then Undefined else get_walk r ps)"

text \<open>
  Modelled from the spec: the helper \<open>get\<close> of \<open>core/utils\<close> is not among the sources.
  The spec says a page's list field is "looked up by a configurable path"; the path is
  read as field names separated by dots, and a missing field gives \<open>Undefined\<close>.
\<close>

definition get :: "jsval \<Rightarrow> string \<Rightarrow> jsval" where
  "get source path = get_walk source (split_path [] path)"

section \<open>Objects keyed by sub-keys\<close>

text \<open>
  The registry's \<open>queries\<close> and a cache entry's \<open>queries\<close> are plain JavaScript objects
  used as maps from a sub-key to a value. \<open>Object.keys\<close> and \<open>Object.values\<close> list the
  own properties with the integer-like keys first, in ascending numeric order, and the
  other string keys after them, in the order they were added. \<open>Idx n\<close> is the key
  \<open>String(n)\<close>; \<open>Named s\<close> is any other string \<open>s\<close>. An object is the list of its
  own entries in that order.
\<close>

datatype qkey = Idx nat | Named string

definition QUERY_DEFAULT_KEY :: qkey where
  "QUERY_DEFAULT_KEY = Named ''__QUERY_DEFAULT_KEY__''"

fun comes_before :: "qkey \<Rightarrow> qkey \<Rightarrow> bool" where
  "comes_before (Idx a) (Idx b) = (a < b)"
| "comes_before (Idx a) (Named t) = True"
| "comes_before (Named s) k = False"

type_synonym 'v jsobj = "(qkey \<times> 'v) list"

definition obj_get :: "'v jsobj \<Rightarrow> qkey \<Rightarrow> 'v option" where
  "obj_get q k = map_of q k"

fun obj_set :: "qkey \<Rightarrow> 'v \<Rightarrow> 'v jsobj \<Rightarrow> 'v jsobj" where
  "obj_set k v [] = [(k, v)]"
| "obj_set k v ((k', v') # q) =
     (if k = k' then (k, v) # q
      else if comes_before k k' then (k, v) # (k', v') # q
      else (k', v') # obj_set k v q)"

text \<open>
  A plain object also answers to the names it inherits from \<open>Object.prototype\<close>:
  \<open>queries[key]\<close> is a function (or the prototype) for such a name when \<open>queries\<close>
  has no entry of its own under it, so the test \<open>!queries[key]\<close> fails for it.
\<close>

definition inherited_names :: "string list" where
  "inherited_names =
     [''constructor'', ''toString'', ''toLocaleString'', ''valueOf'', ''hasOwnProperty'',
      ''isPrototypeOf'', ''propertyIsEnumerable'', ''__proto__'', ''__defineGetter__'',
      ''__defineSetter__'', ''__lookupGetter__'', ''__lookupSetter__'']"

fun inherited :: "qkey \<Rightarrow> bool" where
  "inherited (Idx n) = False"
| "inherited (Named name) = (name \<in> set inherited_names)"

definition obj_delete :: "qkey \<Rightarrow> 'v jsobj \<Rightarrow> 'v jsobj" where
  "obj_delete k q = filter (\<lambda>e. fst e \<noteq> k) q"

definition Object_keys :: "'v jsobj \<Rightarrow> qkey list" where
  "Object_keys q = map fst q"

definition Object_values :: "'v jsobj \<Rightarrow> 'v list" where
  "Object_values q = map snd q"

section \<open>Query Unit\<close>

text \<open>
  The state of one Query Unit: the four observable fields, the attempt generation
  \<open>count\<close> that guards against stale resolutions, and whether the unit is unmounted.
\<close>

record query_unit =
  loading :: bool
  data :: jsval
  error :: jsval
  params :: "jsval list"
  count :: nat
  unmounted :: bool

record snapshot =
  s_loading :: bool
  s_data :: jsval
  s_error :: jsval
  s_params :: "jsval list"

definition unRefObject :: "query_unit \<Rightarrow> snapshot" where
  "unRefObject u =
     \<lparr>s_loading = loading u, s_data = data u, s_error = error u, s_params = params u\<rparr>"

text \<open>
  Modelled from the spec: \<open>createQuery\<close> (\<open>core/createQuery\<close>) is not among the sources.
  A new unit has \<open>data\<close> and \<open>error\<close> unset and \<open>loading = false\<close>; its \<open>params\<close> is an
  ordered sequence (never optional in the spec's data model), empty before the first
  run; a unit rehydrated from the cache is "pre-seeded with the cached
  {loading,data,error,params} snapshot".
\<close>

definition createQuery :: "snapshot option \<Rightarrow> query_unit" where
  "createQuery initialState =
     (case initialState of
        None \<Rightarrow> \<lparr>loading = False, data = Undefined, error = Undefined, params = [],
                  count = 0, unmounted = False\<rparr>
      | Some c \<Rightarrow> \<lparr>loading = s_loading c, data = s_data c, error = s_error c,
                    params = s_params c, count = 0, unmounted = False\<rparr>)"

section \<open>Cache Store\<close>

record cache_data =
  c_queries :: "snapshot jsobj option"
  c_latestQueriesKey :: "qkey option"

record cache_entry =
  e_data :: cache_data
  e_cacheTime :: int
  e_ttl :: int

text \<open>
  The store is process-wide. \<open>writes\<close> lists the cache keys of the calls of \<open>setCache\<close>,
  in order.
\<close>

record cache_store =
  entries :: "string \<Rightarrow> cache_entry option"
  writes :: "string list"

text \<open>
  Modelled from the spec: \<open>getCache\<close> and \<open>setCache\<close> (\<open>core/utils/cache\<close>) are not among
  the sources. \<open>get\<close> "returns current entry if not yet evicted"; \<open>set\<close> "overwrites
  stored entry" and re-arms the eviction timer for \<open>ttlMs\<close>, where \<open>ttlMs <= 0\<close>
  disables eviction; the entry carries the timestamp of its write. The eviction timer
  of an entry is read off its timestamp: the entry is gone once \<open>ttl\<close> milliseconds
  have passed since the write.
\<close>

definition getCache :: "cache_store \<Rightarrow> string \<Rightarrow> int \<Rightarrow> cache_entry option" where
  "getCache st cacheKey now =
     (case entries st cacheKey of
        None \<Rightarrow> None
      | Some e \<Rightarrow> if 0 < e_ttl e \<and> e_cacheTime e + e_ttl e \<le> now then None else Some e)"

definition setCache :: "string \<Rightarrow> cache_data \<Rightarrow> int \<Rightarrow> int \<Rightarrow> cache_store \<Rightarrow> cache_store" where
  "setCache cacheKey d ttl now st =
     st\<lparr>entries := (entries st)(cacheKey := Some \<lparr>e_data = d, e_cacheTime = now, e_ttl = ttl\<rparr>),
        writes := writes st @ [cacheKey]\<rparr>"

section \<open>Query Registry (useAsyncQuery)\<close>

record options =
  cacheKey :: "string option"
  defaultParams :: "jsval list"
  manual :: bool
  loadingDelay :: nat
  cacheTime :: int
  staleTime :: int
  queryKey :: "(jsval list \<Rightarrow> qkey) option"

text \<open>
  What \<open>run\<close> returns: the resolved promise of the readiness gate, or the promise of
  an attempt of a unit (unit, attempt). \<open>TypeError\<close> stands for the exception thrown
  by \<open>latestQuery.value.run(...args)\<close> when the current key has no unit:
  \<open>latestQuery.value\<close> is then the empty object, or what \<open>queries\<close> inherits under
  that name, and its \<open>run\<close> is \<open>undefined\<close>.
\<close>

datatype promise = resolvedPromise | UnitPromise nat nat | TypeError

text \<open>
  The state of one registry, together with what it acts on: the units it has created
  (\<open>units\<close>, by unit identity; a unit deleted from \<open>queries\<close> still exists for the
  attempts in flight), the map \<open>queries\<close> from sub-key to unit, the current key, the
  flattened view, the readiness gate, the calls of the callable so far
  (\<open>invocations\<close>: unit, attempt, arguments), the cache store and the clock.
\<close>

record rstate =
  units :: "nat \<Rightarrow> query_unit"
  next_uid :: nat
  queries :: "nat jsobj"
  latestQueriesKey :: qkey
  v_loading :: "bool option"
  v_data :: jsval
  v_error :: jsval
  v_params :: "jsval list option"
  tempReadyParams :: "jsval list option"
  hasTriggerReady :: bool
  ready :: bool
  stopReady_called :: bool
  invocations :: "(nat \<times> nat \<times> jsval list) list"
  store :: cache_store
  clock :: int


definition currentQueryKey :: "options \<Rightarrow> jsval list \<Rightarrow> qkey" where
  "currentQueryKey opts args =
     (case queryKey opts of None \<Rightarrow> QUERY_DEFAULT_KEY | Some f \<Rightarrow> f args)"

definition updateCache :: "options \<Rightarrow> query_unit \<Rightarrow> rstate \<Rightarrow> rstate" where
  "updateCache opts state s =
     (case cacheKey opts of
        None \<Rightarrow> s
      | Some ck \<Rightarrow>
          if ck = [] then s
          else
            let cacheQueries =
                  (case getCache (store s) ck (clock s) of
                     None \<Rightarrow> None
                   | Some e \<Rightarrow> c_queries (e_data e));
                queryData = unRefObject state;
                k = currentQueryKey opts (params state)
            in s\<lparr>store :=
                   setCache ck
                     \<lparr>c_queries =
                        Some (obj_set k queryData
                               (case cacheQueries of None \<Rightarrow> [] | Some q \<Rightarrow> q)),
                      c_latestQueriesKey = Some k\<rparr>
                     (cacheTime opts) (clock s) (store s)\<rparr>)"

text \<open>
  Modelled from the spec: the operations of a Query Unit (\<open>core/createQuery\<close>, not among
  the sources). Every change of a unit's state is persisted through \<open>updateCache\<close>
  ("write on unit state change"). \<open>run\<close> starts a new attempt, sets \<open>params\<close> and
  \<open>loading\<close> (a positive \<open>loadingDelay\<close> suppresses the transition of \<open>loading\<close>) and
  invokes the callable; a resolution or rejection commits only when its attempt is still
  the unit's latest, and then fires the success or error callback (the Boolean result);
  \<open>cancel\<close> supersedes the attempt in flight and sets \<open>loading = false\<close>; \<open>refresh\<close>
  re-invokes \<open>run\<close> with the unit's params; \<open>mutate\<close> overwrites \<open>data\<close>; \<open>unmount\<close>
  marks the unit inert. Polling, retry, focus and loading-delay timers are left out.
\<close>

definition setState :: "options \<Rightarrow> nat \<Rightarrow> (query_unit \<Rightarrow> query_unit) \<Rightarrow> rstate \<Rightarrow> rstate" where
  "setState opts uid f s =
     (let u = f (units s uid) in updateCache opts u (s\<lparr>units := (units s)(uid := u)\<rparr>))"

definition unit_run :: "options \<Rightarrow> nat \<Rightarrow> jsval list \<Rightarrow> rstate \<Rightarrow> rstate \<times> promise" where
  "unit_run opts uid args s =
     (let s1 = setState opts uid
                 (\<lambda>u. u\<lparr>loading := (if 0 < loadingDelay opts then loading u else True),
                        params := args, count := count u + 1\<rparr>) s;
          attempt = count (units s1 uid)
      in (s1\<lparr>invocations := invocations s1 @ [(uid, attempt, args)]\<rparr>,
          UnitPromise uid attempt))"

definition unit_cancel :: "options \<Rightarrow> nat \<Rightarrow> rstate \<Rightarrow> rstate" where
  "unit_cancel opts uid s =
     setState opts uid (\<lambda>u. u\<lparr>loading := False, count := count u + 1\<rparr>) s"

definition unit_refresh :: "options \<Rightarrow> nat \<Rightarrow> rstate \<Rightarrow> rstate \<times> promise" where
  "unit_refresh opts uid s = unit_run opts uid (params (units s uid)) s"

definition unit_mutate :: "options \<Rightarrow> nat \<Rightarrow> jsval \<Rightarrow> rstate \<Rightarrow> rstate" where
  "unit_mutate opts uid v s = setState opts uid (\<lambda>u. u\<lparr>data := v\<rparr>) s"

definition unit_unmount :: "nat \<Rightarrow> rstate \<Rightarrow> rstate" where
  "unit_unmount uid s = s\<lparr>units := (units s)(uid := (units s uid)\<lparr>unmounted := True\<rparr>)\<rparr>"

definition resolve :: "options \<Rightarrow> nat \<Rightarrow> nat \<Rightarrow> jsval \<Rightarrow> rstate \<Rightarrow> rstate \<times> bool" where
  "resolve opts uid attempt res s =
     (if attempt = count (units s uid)
      then (setState opts uid (\<lambda>u. u\<lparr>data := res, loading := False, error := Undefined\<rparr>) s,
            True)
      else (s, False))"

definition reject :: "options \<Rightarrow> nat \<Rightarrow> nat \<Rightarrow> jsval \<Rightarrow> rstate \<Rightarrow> rstate \<times> bool" where
  "reject opts uid attempt err s =
     (if attempt = count (units s uid)
      then (setState opts uid (\<lambda>u. u\<lparr>data := Undefined, loading := False, error := err\<rparr>) s,
            True)
      else (s, False))"

subsection \<open>The registry's own operations\<close>

definition latestQuery :: "rstate \<Rightarrow> nat option" where
  "latestQuery s = obj_get (queries s) (latestQueriesKey s)"

text \<open>
  The callback of the watcher on \<open>latestQuery\<close>: it copies the four fields of the
  current unit into the view, or \<open>undefined\<close> four times when the current key has no
  unit (\<open>latestQuery\<close> is then the empty object, or an inherited property of
  \<open>queries\<close>, which has none of the four fields). The watcher is registered with
  \<open>immediate\<close> and \<open>deep\<close> and without \<open>flush: 'sync'\<close> (the watcher on \<open>ready\<close> has it):
  its callback runs once at registration and afterwards when the framework flushes its
  watchers, not inside the operation that changed the unit.
\<close>

definition sync_state :: "rstate \<Rightarrow> rstate" where
  "sync_state s =
     (case latestQuery s of
        None \<Rightarrow> s\<lparr>v_loading := None, v_data := Undefined, v_error := Undefined,
                  v_params := None\<rparr>
      | Some uid \<Rightarrow>
          s\<lparr>v_loading := Some (loading (units s uid)), v_data := data (units s uid),
            v_error := error (units s uid), v_params := Some (params (units s uid))\<rparr>)"

definition new_query :: "qkey \<Rightarrow> snapshot option \<Rightarrow> rstate \<Rightarrow> rstate" where
  "new_query key initialState s =
     s\<lparr>units := (units s)(next_uid s := createQuery initialState),
       next_uid := next_uid s + 1,
       queries := obj_set key (next_uid s) (queries s)\<rparr>"

text \<open>
  \<open>run\<close>. The test \<open>!queries[newKey]\<close> holds when \<open>queries\<close> has no unit of its own
  under the key and the key is not a name that every object inherits; only then is a
  unit created. The key becomes current in any case, and the call goes to the unit
  under it; when there is none (an inherited name without a unit) the call throws.
\<close>

definition run :: "options \<Rightarrow> jsval list \<Rightarrow> rstate \<Rightarrow> rstate \<times> promise" where
  "run opts args s =
     (if \<not> ready s \<and> \<not> hasTriggerReady s
      then (s\<lparr>tempReadyParams := Some args\<rparr>, resolvedPromise)
      else
        let newKey = currentQueryKey opts args;
            s1 = (if obj_get (queries s) newKey = None \<and> \<not> inherited newKey
                  then new_query newKey None s else s);
            s2 = s1\<lparr>latestQueriesKey := newKey\<rparr>
        in case latestQuery s2 of
             None \<Rightarrow> (s2, TypeError)
           | Some uid \<Rightarrow> unit_run opts uid args s2)"

text \<open>
  The loop of \<open>unmountQueries\<close>: for each key of \<open>Object.keys(queries)\<close> that passes the
  test \<open>selected\<close>, the unit is cancelled, unmounted and deleted from \<open>queries\<close>. The
  registry's loop has no test; the accumulation layer's loop skips the key \<open>"0"\<close>. A
  key of \<open>Object.keys(queries)\<close> has its unit in \<open>queries\<close>; the list representation
  also allows a key without one, which the loop then passes over.
\<close>

fun unmount_each :: "options \<Rightarrow> (qkey \<Rightarrow> bool) \<Rightarrow> qkey list \<Rightarrow> rstate \<Rightarrow> rstate" where
  "unmount_each opts selected [] s = s"
| "unmount_each opts selected (key # keys) s =
     unmount_each opts selected keys
       (if selected key then
          (case obj_get (queries s) key of
             None \<Rightarrow> s
           | Some uid \<Rightarrow>
               (let s1 = unit_unmount uid (unit_cancel opts uid s)
                in s1\<lparr>queries := obj_delete key (queries s1)\<rparr>))
        else s)"

definition unmountQueries :: "options \<Rightarrow> rstate \<Rightarrow> rstate" where
  "unmountQueries opts s = unmount_each opts (\<lambda>key. True) (Object_keys (queries s)) s"

definition reset :: "options \<Rightarrow> rstate \<Rightarrow> rstate" where
  "reset opts s =
     (let s1 = unmountQueries opts s;
          s2 = s1\<lparr>latestQueriesKey := QUERY_DEFAULT_KEY\<rparr>
      in new_query QUERY_DEFAULT_KEY None s2)"

definition cancel :: "options \<Rightarrow> rstate \<Rightarrow> rstate option" where
  "cancel opts s =
     (case latestQuery s of None \<Rightarrow> None | Some uid \<Rightarrow> Some (unit_cancel opts uid s))"

definition refresh :: "options \<Rightarrow> rstate \<Rightarrow> (rstate \<times> promise) option" where
  "refresh opts s =
     (case latestQuery s of None \<Rightarrow> None | Some uid \<Rightarrow> Some (unit_refresh opts uid s))"

definition mutate :: "options \<Rightarrow> jsval \<Rightarrow> rstate \<Rightarrow> rstate option" where
  "mutate opts v s =
     (case latestQuery s of None \<Rightarrow> None | Some uid \<Rightarrow> Some (unit_mutate opts uid v s))"

subsection \<open>Construction\<close>

text \<open>
  Construction creates the unit of the default key, registers the watcher of the view
  (whose callback runs at once), rehydrates the units from the cache entry and makes
  the initial automatic run. \<open>initialAutoRunFlag\<close>, which only switches off the debounce
  of a unit, is left out. The watcher on \<open>ready\<close> is registered last; \<open>ready0\<close> is the
  value of the \<open>ready\<close> flag at construction, \<open>st\<close> the store and \<open>now\<close> the time.
  When the initial run throws, construction ends with that exception; the state given
  is the one reached at that point. Rehydration assigns \<open>queries[key]\<close> for each key of
  the cache entry and adds an entry for it here; for the one name \<open>__proto__\<close>
  JavaScript takes the assignment as a change of the prototype of \<open>queries\<close> instead,
  so a cache entry with a snapshot under that name is not covered.
\<close>

definition rehydrate :: "options \<Rightarrow> rstate \<Rightarrow> rstate" where
  "rehydrate opts s =
     (case cacheKey opts of
        None \<Rightarrow> s
      | Some ck \<Rightarrow>
          if ck = [] then s
          else
            (case getCache (store s) ck (clock s) of
               None \<Rightarrow> s
             | Some cache \<Rightarrow>
                 (case c_queries (e_data cache) of
                    None \<Rightarrow> s
                  | Some cq \<Rightarrow>
                      let s1 = fold (\<lambda>e. new_query (fst e) (Some (snd e))) cq s
                      in (case c_latestQueriesKey (e_data cache) of
                            None \<Rightarrow> s1
                          | Some k \<Rightarrow>
                              if k = Named [] then s1 else s1\<lparr>latestQueriesKey := k\<rparr>))))"

fun refresh_each :: "options \<Rightarrow> qkey list \<Rightarrow> rstate \<Rightarrow> rstate" where
  "refresh_each opts [] s = s"
| "refresh_each opts (key # keys) s =
     refresh_each opts keys
       (case obj_get (queries s) key of
          None \<Rightarrow> s
        | Some uid \<Rightarrow> fst (unit_refresh opts uid s))"

definition initial_cache :: "options \<Rightarrow> rstate \<Rightarrow> cache_entry option" where
  "initial_cache opts s =
     (case cacheKey opts of None \<Rightarrow> None | Some ck \<Rightarrow> getCache (store s) ck (clock s))"

definition isFresh :: "options \<Rightarrow> rstate \<Rightarrow> bool" where
  "isFresh opts s =
     (case initial_cache opts s of
        None \<Rightarrow> False
      | Some cache \<Rightarrow> staleTime opts = - 1 \<or> clock s < e_cacheTime cache + staleTime opts)"

definition hasCacheQueries :: "options \<Rightarrow> rstate \<Rightarrow> bool" where
  "hasCacheQueries opts s =
     (case initial_cache opts s of
        None \<Rightarrow> False
      | Some cache \<Rightarrow>
          (case c_queries (e_data cache) of
             None \<Rightarrow> False
           | Some cq \<Rightarrow> 0 < length (Object_keys cq)))"

definition initial_run :: "options \<Rightarrow> rstate \<Rightarrow> rstate" where
  "initial_run opts s =
     (if \<not> manual opts then
        (if \<not> isFresh opts s then
           (if hasCacheQueries opts s
            then refresh_each opts (Object_keys (queries s)) s
            else fst (run opts (defaultParams opts) s))
         else s)
      else s)"

definition empty_rstate :: "bool \<Rightarrow> cache_store \<Rightarrow> int \<Rightarrow> rstate" where
  "empty_rstate ready0 st now =
     \<lparr>units = (\<lambda>uid. createQuery None), next_uid = 0, queries = [],
      latestQueriesKey = QUERY_DEFAULT_KEY,
      v_loading = None, v_data = Undefined, v_error = Undefined, v_params = None,
      tempReadyParams = None, hasTriggerReady = False, ready = ready0,
      stopReady_called = False, invocations = [], store = st, clock = now\<rparr>"

definition useAsyncQuery :: "options \<Rightarrow> bool \<Rightarrow> cache_store \<Rightarrow> int \<Rightarrow> rstate" where
  "useAsyncQuery opts ready0 st now =
     initial_run opts
       (rehydrate opts
          (sync_state (new_query QUERY_DEFAULT_KEY None (empty_rstate ready0 st now))))"

text \<open>
  A change of the \<open>ready\<close> flag. The watcher on \<open>ready\<close> is synchronous; it fires when
  the value changes, until \<open>stopReady\<close> has been called. When the replayed \<open>run\<close>
  throws, the callback ends there and \<open>stopReady\<close> is not called.
\<close>

definition set_ready :: "options \<Rightarrow> bool \<Rightarrow> rstate \<Rightarrow> rstate" where
  "set_ready opts val s =
     (if val = ready s then s
      else
        let s1 = s\<lparr>ready := val\<rparr> in
        if stopReady_called s1 then s1
        else
          let s2 = s1\<lparr>hasTriggerReady := True\<rparr> in
          (case tempReadyParams s2 of
             None \<Rightarrow> s2
           | Some args \<Rightarrow>
               if val then
                 (let rp = run opts args s2
                  in if snd rp = TypeError then fst rp
                     else (fst rp)\<lparr>stopReady_called := True\<rparr>)
               else s2))"

section \<open>List-Accumulation Layer (useLoadMore)\<close>

record lm_options =
  restOptions :: options
  isNoMore :: "(jsval \<Rightarrow> bool) option"
  listKey_option :: "string option"

definition listKey :: "lm_options \<Rightarrow> string" where
  "listKey lopts = (case listKey_option lopts of None \<Rightarrow> ''list'' | Some k \<Rightarrow> k)"

record lmstate =
  reg :: rstate
  increaseQueryKey :: nat
  loadingMore :: bool
  refreshing :: bool
  reloading :: bool
  latestData :: jsval

datatype outcome = Returned | Thrown | Awaits promise

text \<open>
  The options the layer hands to the registry: the caller's, with the key function
  \<open>() => String(increaseQueryKey.value)\<close>, read at the moment of the call.
\<close>

definition registry_options :: "lm_options \<Rightarrow> lmstate \<Rightarrow> options" where
  "registry_options lopts s =
     (restOptions lopts)\<lparr>queryKey := Some (\<lambda>args. Idx (increaseQueryKey s))\<rparr>"

text \<open>
  Construction: the counter is 0 all through the construction of the registry; then
  \<open>latestData\<close> starts as the view's data (the effect on \<open>data\<close> runs at once and
  changes nothing).
\<close>

definition useLoadMore :: "lm_options \<Rightarrow> bool \<Rightarrow> cache_store \<Rightarrow> int \<Rightarrow> lmstate" where
  "useLoadMore lopts ready0 st now =
     (let r = useAsyncQuery
                ((restOptions lopts)\<lparr>queryKey := Some (\<lambda>args. Idx 0)\<rparr>) ready0 st now
      in \<lparr>reg = r, increaseQueryKey = 0, loadingMore = False, refreshing = False,
          reloading = False, latestData = v_data r\<rparr>)"

text \<open>
  A flush of the watchers. The registry's view is synchronised first. The effect on
  \<open>data\<close> (\<open>watchEffect\<close>) reads \<open>data.value\<close> alone, so it runs again only when that
  assignment has changed \<open>data.value\<close>: the value assigned is not the same as the one
  held. Values are kept by content here, which settles the question except for an
  array or object equal to the one held: whether it is that very object or another one
  is the parameter \<open>another\<close>. When the effect runs, it keeps the value if it is not
  \<open>undefined\<close>.
\<close>

definition data_changed :: "bool \<Rightarrow> jsval \<Rightarrow> jsval \<Rightarrow> bool" where
  "data_changed another held assigned =
     (assigned \<noteq> held \<or> (is_object assigned \<and> another))"

definition lm_flush :: "bool \<Rightarrow> lmstate \<Rightarrow> lmstate" where
  "lm_flush another s =
     (let r = sync_state (reg s)
      in s\<lparr>reg := r,
           latestData :=
             (if data_changed another (v_data (reg s)) (v_data r) \<and> v_data r \<noteq> Undefined
              then v_data r else latestData s)\<rparr>)"

definition noMore :: "lm_options \<Rightarrow> lmstate \<Rightarrow> bool" where
  "noMore lopts s = (case isNoMore lopts of None \<Rightarrow> False | Some f \<Rightarrow> f (latestData s))"

definition dataList :: "lm_options \<Rightarrow> lmstate \<Rightarrow> jsval list" where
  "dataList lopts s =
     foldl (\<lambda>list uid.
              let dl = get (data (units (reg s) uid)) (listKey lopts)
              in if truthy dl \<and> isArray dl then list @ elems dl else list)
       [] (Object_values (queries (reg s)))"

definition loadMore :: "lm_options \<Rightarrow> lmstate \<Rightarrow> lmstate \<times> outcome" where
  "loadMore lopts s =
     (if noMore lopts s then (s, Returned)
      else
        let s1 = s\<lparr>loadingMore := True\<rparr> in
        (case v_params (reg s1) of
           None \<Rightarrow> (s1, Thrown)
         | Some ps \<Rightarrow>
             let restParams = tl ps;
                 mergerParams =
                   JObj [(''dataList'', JArr (dataList lopts s1)), (''data'', latestData s1)]
                   # restParams
             in (s1\<lparr>reg := fst (run (registry_options lopts s1) mergerParams (reg s1))\<rparr>,
                 Returned)))"

definition lm_unmountQueries :: "lm_options \<Rightarrow> lmstate \<Rightarrow> lmstate" where
  "lm_unmountQueries lopts s =
     s\<lparr>reg := unmount_each (registry_options lopts s) (\<lambda>key. key \<noteq> Idx 0)
                (Object_keys (queries (reg s))) (reg s)\<rparr>"

text \<open>
  \<open>refresh\<close> and \<open>reload\<close> are asynchronous: the part before \<open>await run(...)\<close> returns
  the promise it waits for, and the part after it runs once that promise has settled.
\<close>

definition lm_refresh_start :: "lm_options \<Rightarrow> lmstate \<Rightarrow> lmstate \<times> outcome" where
  "lm_refresh_start lopts s =
     (let s1 = s\<lparr>refreshing := True\<rparr>;
          latestKey = int (increaseQueryKey s1) - 1;
          key = (if latestKey < 0 then 0 else latestKey)
      in case obj_get (queries (reg s1)) (Idx (nat key)) of
           None \<Rightarrow> (s1, Thrown)
         | Some uid \<Rightarrow>
             let s2 = s1\<lparr>latestData := data (units (reg s1) uid)\<rparr>;
                 s3 = s2\<lparr>increaseQueryKey := 0\<rparr>
             in (case v_params (reg s3) of
                   None \<Rightarrow> (s3, Thrown)
                 | Some ps \<Rightarrow>
                     let restParams = tl ps;
                         mergerParams = Undefined # restParams;
                         rp = run (registry_options lopts s3) mergerParams (reg s3)
                     in (s3\<lparr>reg := fst rp\<rparr>, Awaits (snd rp))))"

definition lm_refresh_finish :: "lm_options \<Rightarrow> lmstate \<Rightarrow> lmstate" where
  "lm_refresh_finish lopts s = (lm_unmountQueries lopts s)\<lparr>refreshing := False\<rparr>"

definition lm_reload_start :: "lm_options \<Rightarrow> lmstate \<Rightarrow> lmstate \<times> outcome" where
  "lm_reload_start lopts s =
     (let s1 = s\<lparr>reloading := True\<rparr>;
          s2 = s1\<lparr>reg := reset (registry_options lopts s1) (reg s1)\<rparr>;
          s3 = s2\<lparr>increaseQueryKey := 0\<rparr>;
          s4 = s3\<lparr>latestData := Undefined\<rparr>
      in case v_params (reg s4) of
           None \<Rightarrow> (s4, Thrown)
         | Some ps \<Rightarrow>
             let restParams = tl ps;
                 mergerParams = Undefined # restParams;
                 rp = run (registry_options lopts s4) mergerParams (reg s4)
             in (s4\<lparr>reg := fst rp\<rparr>, Awaits (snd rp)))"

definition lm_reload_finish :: "lmstate \<Rightarrow> lmstate" where
  "lm_reload_finish s = s\<lparr>reloading := False\<rparr>"

definition lm_cancel :: "lm_options \<Rightarrow> lmstate \<Rightarrow> lmstate \<times> outcome" where
  "lm_cancel lopts s =
     (case cancel (registry_options lopts s) (reg s) of
        None \<Rightarrow> (s, Thrown)
      | Some r \<Rightarrow> (s\<lparr>reg := r, loadingMore := False, refreshing := False\<rparr>, Returned))"

text \<open>
  The settlement of an attempt of a unit. The registry's unit commits it when the
  attempt is still its latest, and then calls the layer's \<open>onSuccess\<close>
  (\<open>loadingMore.value = false; increaseQueryKey.value++\<close>) or \<open>onError\<close>
  (\<open>loadingMore.value = false\<close>). The caller's own callbacks are taken to leave this
  state alone.
\<close>

definition lm_resolve :: "lm_options \<Rightarrow> nat \<Rightarrow> nat \<Rightarrow> jsval \<Rightarrow> lmstate \<Rightarrow> lmstate" where
  "lm_resolve lopts uid attempt res s =
     (let rf = resolve (registry_options lopts s) uid attempt res (reg s);
          s1 = s\<lparr>reg := fst rf\<rparr>
      in if snd rf
         then s1\<lparr>loadingMore := False, increaseQueryKey := increaseQueryKey s1 + 1\<rparr>
         else s1)"

definition lm_reject :: "lm_options \<Rightarrow> nat \<Rightarrow> nat \<Rightarrow> jsval \<Rightarrow> lmstate \<Rightarrow> lmstate" where
  "lm_reject lopts uid attempt err s =
     (let rf = reject (registry_options lopts s) uid attempt err (reg s);
          s1 = s\<lparr>reg := fst rf\<rparr>
      in if snd rf then s1\<lparr>loadingMore := False\<rparr> else s1)"

definition lm_set_ready :: "lm_options \<Rightarrow> bool \<Rightarrow> lmstate \<Rightarrow> lmstate" where
  "lm_set_ready lopts val s = s\<lparr>reg := set_ready (registry_options lopts s) val (reg s)\<rparr>"

definition lm_tick :: "int \<Rightarrow> lmstate \<Rightarrow> lmstate" where
  "lm_tick t s = s\<lparr>reg := (reg s)\<lparr>clock := max t (clock (reg s))\<rparr>\<rparr>"

text \<open>
  The states the layer can be in: construction, then any sequence of events. An
  attempt may settle at any time and the watchers may be flushed at any time; the
  settlement of an attempt that was never started is not excluded, so the predicate
  holds of every state the layer can reach, and of some more.
\<close>

inductive lm_reachable :: "lm_options \<Rightarrow> lmstate \<Rightarrow> bool" for lopts :: lm_options where
  init: "lm_reachable lopts (useLoadMore lopts ready0 st now)"
| flush: "lm_reachable lopts s \<Longrightarrow> lm_reachable lopts (lm_flush another s)"
| loadMore: "lm_reachable lopts s \<Longrightarrow> lm_reachable lopts (fst (loadMore lopts s))"
| refresh_start: "lm_reachable lopts s \<Longrightarrow> lm_reachable lopts (fst (lm_refresh_start lopts s))"
| refresh_finish: "lm_reachable lopts s \<Longrightarrow> lm_reachable lopts (lm_refresh_finish lopts s)"
| reload_start: "lm_reachable lopts s \<Longrightarrow> lm_reachable lopts (fst (lm_reload_start lopts s))"
| reload_finish: "lm_reachable lopts s \<Longrightarrow> lm_reachable lopts (lm_reload_finish s)"
| cancel: "lm_reachable lopts s \<Longrightarrow> lm_reachable lopts (fst (lm_cancel lopts s))"
| resolve: "lm_reachable lopts s \<Longrightarrow> lm_reachable lopts (lm_resolve lopts uid attempt res s)"
| reject: "lm_reachable lopts s \<Longrightarrow> lm_reachable lopts (lm_reject lopts uid attempt err s)"
| set_ready: "lm_reachable lopts s \<Longrightarrow> lm_reachable lopts (lm_set_ready lopts val s)"
| tick: "lm_reachable lopts s \<Longrightarrow> lm_reachable lopts (lm_tick t s)"
| run: "lm_reachable lopts s \<Longrightarrow>
        lm_reachable lopts (s\<lparr>reg := fst (run (registry_options lopts s) args (reg s))\<rparr>)"
| reset: "lm_reachable lopts s \<Longrightarrow>
          lm_reachable lopts (s\<lparr>reg := reset (registry_options lopts s) (reg s)\<rparr>)"

section \<open>Auxiliary notions and example inputs\<close>

text \<open>The store after \<open>updateCache\<close>; \<open>updateCache\<close> changes nothing else.\<close>

definition cache_after :: "options \<Rightarrow> query_unit \<Rightarrow> rstate \<Rightarrow> cache_store" where
  "cache_after opts state s = store (updateCache opts state s)"

definition empty_store :: cache_store where
  "empty_store = \<lparr>entries = (\<lambda>k. None), writes = []\<rparr>"

definition manual_options :: options where
  "manual_options =
     \<lparr>cacheKey = None, defaultParams = [], manual = True, loadingDelay = 0,
      cacheTime = 600000, staleTime = 0, queryKey = None\<rparr>"

definition first_arg_key :: "jsval list \<Rightarrow> qkey" where
  "first_arg_key args = (case args of JNum n # rest \<Rightarrow> Idx (nat n) | _ \<Rightarrow> Named ''other'')"

definition run_unit :: "options \<Rightarrow> jsval list \<Rightarrow> rstate \<Rightarrow> nat" where
  "run_unit opts args s =
     (case obj_get (queries s) (currentQueryKey opts args) of None \<Rightarrow> next_uid s | Some u \<Rightarrow> u)"

definition run_prepared :: "options \<Rightarrow> jsval list \<Rightarrow> rstate \<Rightarrow> rstate" where
  "run_prepared opts args s =
     (if obj_get (queries s) (currentQueryKey opts args) = None
         \<and> \<not> inherited (currentQueryKey opts args)
      then new_query (currentQueryKey opts args) None s else s)
     \<lparr>latestQueriesKey := currentQueryKey opts args\<rparr>"

text \<open>The calls of \<open>run\<close> that throw past the gate: no unit under the key, of an inherited name.\<close>

definition run_throws :: "options \<Rightarrow> jsval list \<Rightarrow> rstate \<Rightarrow> bool" where
  "run_throws opts args s =
     (obj_get (queries s) (currentQueryKey opts args) = None
      \<and> inherited (currentQueryKey opts args))"

definition ready_then_unready :: rstate where
  "ready_then_unready =
     set_ready manual_options False (useAsyncQuery manual_options True empty_store 0)"

definition discarded :: "query_unit \<Rightarrow> query_unit" where
  "discarded u = u\<lparr>loading := False, count := count u + 1, unmounted := True\<rparr>"

definition two_keys :: rstate where
  "two_keys =
     fst (run (manual_options\<lparr>queryKey := Some first_arg_key\<rparr>) [JNum 5]
            (useAsyncQuery (manual_options\<lparr>queryKey := Some first_arg_key\<rparr>) True empty_store 0))"

text \<open>The calls of the callable so far: the unit and the arguments of each.\<close>

definition invoked :: "rstate \<Rightarrow> (nat \<times> jsval list) list" where
  "invoked s = map (\<lambda>i. (fst i, snd (snd i))) (invocations s)"




definition after_run :: rstate where
  "after_run = fst (run manual_options [JNum 5] (useAsyncQuery manual_options True empty_store 0))"

definition page1 :: jsval where "page1 = JObj [(''list'', JArr [JNum 1, JNum 2])]"

definition page2 :: jsval where "page2 = JObj [(''list'', JArr [JNum 3, JNum 4])]"

definition page3 :: jsval where "page3 = JObj [(''list'', JArr [JNum 5]), (''last'', JBool True)]"

definition lm_demo_options :: lm_options where
  "lm_demo_options =
     \<lparr>restOptions = manual_options\<lparr>manual := False, defaultParams := [Undefined, JStr ''q'']\<rparr>,
      isNoMore = Some (\<lambda>d. get d ''last'' = JBool True),
      listKey_option = None\<rparr>"

definition page_one :: lmstate where
  "page_one =
     lm_flush False (lm_resolve lm_demo_options 1 1 page1
                 (useLoadMore lm_demo_options True empty_store 0))"

definition page_two :: lmstate where
  "page_two =
     lm_flush False (lm_resolve lm_demo_options 2 1 page2 (fst (loadMore lm_demo_options page_one)))"

definition page_three :: lmstate where
  "page_three =
     lm_flush False (lm_resolve lm_demo_options 3 1 page3 (fst (loadMore lm_demo_options page_two)))"

definition refreshed_three :: lmstate where
  "refreshed_three =
     lm_refresh_finish lm_demo_options
       (lm_flush False (lm_resolve lm_demo_options 1 2 page1
                          (fst (lm_refresh_start lm_demo_options page_three))))"


definition refresh_settled :: lmstate where
  "refresh_settled =
     lm_flush False (lm_resolve lm_demo_options 1 2 page1
                 (fst (lm_refresh_start lm_demo_options page_three)))"

text \<open>A registry whose key function returns the name \<open>toString\<close> for every call.\<close>

definition inherited_key_options :: options where
  "inherited_key_options = manual_options\<lparr>queryKey := Some (\<lambda>args. Named ''toString'')\<rparr>"

definition inherited_start :: rstate where
  "inherited_start = useAsyncQuery inherited_key_options True empty_store 0"








text \<open>
  The order of \<open>Object.keys\<close>: a key stands before another when both are integer-like
  and the first is the smaller number, or when the first is integer-like and the second
  is not; among the other keys any order can occur.
\<close>

fun key_precedes :: "qkey \<Rightarrow> qkey \<Rightarrow> bool" where
  "key_precedes (Idx a) (Idx b) = (a < b)"
| "key_precedes (Idx a) (Named t) = True"
| "key_precedes (Named s) (Idx b) = False"
| "key_precedes (Named s) (Named t) = True"

definition js_object :: "'v jsobj \<Rightarrow> bool" where
  "js_object q = (sorted_wrt key_precedes (map fst q) \<and> distinct (map fst q))"

text \<open>
  The units of \<open>queries\<close> are distinct and were created earlier: each key has a unit of
  its own.
\<close>

definition fresh_units :: "rstate \<Rightarrow> bool" where
  "fresh_units s =
     (distinct (map snd (queries s)) \<and> (\<forall>uid \<in> snd ` set (queries s). uid < next_uid s))"

text \<open>The states a registry can be in: construction, then any sequence of events.\<close>

inductive reachable :: "options \<Rightarrow> rstate \<Rightarrow> bool" for opts :: options where
  init: "reachable opts (useAsyncQuery opts ready0 st now)"
| flush: "reachable opts s \<Longrightarrow> reachable opts (sync_state s)"
| run: "reachable opts s \<Longrightarrow> reachable opts (fst (run opts args s))"
| reset: "reachable opts s \<Longrightarrow> reachable opts (reset opts s)"
| set_ready: "reachable opts s \<Longrightarrow> reachable opts (set_ready opts val s)"
| resolve: "reachable opts s \<Longrightarrow> reachable opts (fst (resolve opts uid attempt res s))"
| reject: "reachable opts s \<Longrightarrow> reachable opts (fst (reject opts uid attempt err s))"
| cancel: "reachable opts s \<Longrightarrow> cancel opts s = Some s' \<Longrightarrow> reachable opts s'"
| refresh: "reachable opts s \<Longrightarrow> refresh opts s = Some rp \<Longrightarrow> reachable opts (fst rp)"
| mutate: "reachable opts s \<Longrightarrow> mutate opts v s = Some s' \<Longrightarrow> reachable opts s'"
| tick: "reachable opts s \<Longrightarrow> reachable opts (s\<lparr>clock := max t (clock s)\<rparr>)"

section \<open>Basic facts\<close>

lemma updateCache_eq: "updateCache opts u s = s\<lparr>store := cache_after opts u s\<rparr>"
  by (simp add: cache_after_def updateCache_def Let_def split: option.splits)

lemma cache_after_indep:
  "cache_after opts u (s\<lparr>units := us\<rparr>) = cache_after opts u s"
  "cache_after opts u (s\<lparr>queries := q\<rparr>) = cache_after opts u s"
  "cache_after opts u (s\<lparr>latestQueriesKey := k\<rparr>) = cache_after opts u s"
  "cache_after opts u (s\<lparr>invocations := i\<rparr>) = cache_after opts u s"
  "cache_after opts u (s\<lparr>next_uid := n\<rparr>) = cache_after opts u s"
  by (simp_all add: cache_after_def updateCache_def Let_def split: option.splits)

lemma setState_eq:
  "setState opts uid f s =
     s\<lparr>units := (units s)(uid := f (units s uid)), store := cache_after opts (f (units s uid)) s\<rparr>"
  by (simp add: setState_def Let_def updateCache_eq cache_after_indep)

lemma unit_run_eq:
  "unit_run opts uid args s =
    (let u = (units s uid)\<lparr>loading := (if 0 < loadingDelay opts then loading (units s uid) else True),
                        params := args, count := count (units s uid) + 1\<rparr>
     in (s\<lparr>units := (units s)(uid := u), store := cache_after opts u s,
           invocations := invocations s @ [(uid, count (units s uid) + 1, args)]\<rparr>,
         UnitPromise uid (count (units s uid) + 1)))"
  by (simp add: unit_run_def setState_eq Let_def)

lemma obj_get_set: "obj_get (obj_set k v q) k' = (if k' = k then Some v else obj_get q k')"
  by (induction q) (auto simp: obj_get_def)

lemma obj_get_delete: "obj_get (obj_delete k q) k' = (if k' = k then None else obj_get q k')"
  by (induction q) (auto simp: obj_get_def obj_delete_def)

lemma latestQuery_upd:
  "latestQuery (s\<lparr>latestQueriesKey := k\<rparr>) = obj_get (queries s) k"
  by (simp add: latestQuery_def)

lemma useAsyncQuery_manual_empty:
  "manual opts \<Longrightarrow> cacheKey opts = None \<Longrightarrow>
   useAsyncQuery opts rdy st now =
     sync_state (new_query QUERY_DEFAULT_KEY None (empty_rstate rdy st now))"
  by (simp add: useAsyncQuery_def initial_run_def rehydrate_def)

section \<open>The registry's run\<close>

text \<open>
  C5. A call \<open>run(...args)\<close> that passes the readiness gate computes the sub-key with
  the key function when one is supplied and takes the default key otherwise, and makes
  it the current key. When \<open>queries\<close> has a unit under the key, no unit is created and
  the call is the run of that unit with the same arguments, whose promise it returns.
  When it has none and the key is not a name that every object inherits, a unit is
  created for it and the call is the run of that new unit. When it has none and the key
  is such a name (\<open>toString\<close>, \<open>constructor\<close>, ...), the test \<open>!queries[key]\<close> fails:
  no unit is created, and the call throws at \<open>latestQuery.value.run\<close>, the callable
  not invoked. The default key is not such a name.
\<close>

theorem run_selects_unit:
  assumes "ready s \<or> hasTriggerReady s"
  shows "let key = (case queryKey opts of None \<Rightarrow> QUERY_DEFAULT_KEY | Some f \<Rightarrow> f args);
             s' = fst (run opts args s)
         in latestQueriesKey s' = key
          \<and> (case obj_get (queries s) key of
                Some uid \<Rightarrow>
                  queries s' = queries s \<and> next_uid s' = next_uid s
                  \<and> run opts args s = unit_run opts uid args (s\<lparr>latestQueriesKey := key\<rparr>)
              | None \<Rightarrow>
                  if inherited key
                  then run opts args s = (s\<lparr>latestQueriesKey := key\<rparr>, TypeError)
                  else queries s' = obj_set key (next_uid s) (queries s)
                     \<and> obj_get (queries s') key = Some (next_uid s)
                     \<and> next_uid s' = next_uid s + 1
                     \<and> run opts args s =
                         unit_run opts (next_uid s) args
                           ((new_query key None s)\<lparr>latestQueriesKey := key\<rparr>))
          \<and> \<not> inherited QUERY_DEFAULT_KEY"
proof -
  define key where "key = currentQueryKey opts args"
  have dk: "\<not> inherited QUERY_DEFAULT_KEY"
    by (simp add: QUERY_DEFAULT_KEY_def inherited_names_def)
  show ?thesis
  proof (cases "obj_get (queries s) key")
    case None
    show ?thesis
    proof (cases "inherited key")
      case True
      have "run opts args s = (s\<lparr>latestQueriesKey := key\<rparr>, TypeError)"
        using assms None True by (auto simp: run_def Let_def key_def [symmetric] latestQuery_upd)
      then show ?thesis using None True dk
        by (simp add: Let_def key_def currentQueryKey_def)
    next
      case False
      have lq: "latestQuery ((new_query key None s)\<lparr>latestQueriesKey := key\<rparr>) = Some (next_uid s)"
        by (simp add: latestQuery_upd new_query_def obj_get_set)
      have "run opts args s =
              unit_run opts (next_uid s) args ((new_query key None s)\<lparr>latestQueriesKey := key\<rparr>)"
        using assms None False lq by (auto simp: run_def Let_def key_def [symmetric])
      then show ?thesis using None False dk
        by (simp add: Let_def unit_run_eq new_query_def obj_get_set key_def currentQueryKey_def)
    qed
  next
    case (Some uid)
    have lq: "latestQuery (s\<lparr>latestQueriesKey := key\<rparr>) = Some uid"
      using Some by (simp add: latestQuery_upd)
    have "run opts args s = unit_run opts uid args (s\<lparr>latestQueriesKey := key\<rparr>)"
      using assms Some lq by (auto simp: run_def Let_def key_def [symmetric])
    then show ?thesis using Some dk
      by (simp add: Let_def unit_run_eq key_def currentQueryKey_def)
  qed
qed

text \<open>
  The first call below creates the unit of key \<open>"5"\<close>. The second is \<open>run(5)\<close> on a
  new, ready registry whose key function returns \<open>"toString"\<close>: \<open>queries\<close> holds the
  default unit alone, no unit is created, the key becomes current and the call throws;
  the callable is not invoked.
\<close>

theorem run_selects_unit_witness:
  "(let s = useAsyncQuery (manual_options\<lparr>queryKey := Some first_arg_key\<rparr>) True empty_store 0;
        s' = fst (run (manual_options\<lparr>queryKey := Some first_arg_key\<rparr>) [JNum 5] s)
    in ready s \<and> latestQueriesKey s' = Idx 5 \<and> obj_get (queries s') (Idx 5) = Some 1
       \<and> queries s' = [(Idx 5, 1), (QUERY_DEFAULT_KEY, 0)] \<and> next_uid s' = 2)
   \<and> ready inherited_start
   \<and> queries inherited_start = [(QUERY_DEFAULT_KEY, 0)]
   \<and> inherited (Named ''toString'')
   \<and> run inherited_key_options [JNum 5] inherited_start =
       (inherited_start\<lparr>latestQueriesKey := Named ''toString''\<rparr>, TypeError)
   \<and> queries (fst (run inherited_key_options [JNum 5] inherited_start)) = [(QUERY_DEFAULT_KEY, 0)]
   \<and> latestQuery (fst (run inherited_key_options [JNum 5] inherited_start)) = None
   \<and> invocations (fst (run inherited_key_options [JNum 5] inherited_start)) = []"
proof -
  have i: "ready inherited_start" "queries inherited_start = [(QUERY_DEFAULT_KEY, 0)]"
    "invocations inherited_start = []" "queryKey inherited_key_options = Some (\<lambda>args. Named ''toString'')"
    by (simp_all add: inherited_start_def inherited_key_options_def useAsyncQuery_manual_empty
        manual_options_def sync_state_def latestQuery_def obj_get_def new_query_def
        empty_rstate_def)
  have n: "inherited (Named ''toString'')" by (simp add: inherited_names_def)
  show ?thesis
    using run_selects_unit [where s = "useAsyncQuery (manual_options\<lparr>queryKey := Some first_arg_key\<rparr>) True empty_store 0"
        and opts = "manual_options\<lparr>queryKey := Some first_arg_key\<rparr>" and args = "[JNum 5]"]
      run_selects_unit [where s = inherited_start and opts = inherited_key_options and args = "[JNum 5]"]
      i n
    by (simp add: useAsyncQuery_manual_empty sync_state_def latestQuery_def new_query_def
        empty_rstate_def obj_get_def QUERY_DEFAULT_KEY_def manual_options_def first_arg_key_def Let_def
        run_def inherited_names_def currentQueryKey_def unit_run_eq)
qed

section \<open>Readiness gating\<close>

lemma run_gated_eq:
  "\<not> ready s \<Longrightarrow> \<not> hasTriggerReady s \<Longrightarrow>
   run opts args s = (s\<lparr>tempReadyParams := Some args\<rparr>, resolvedPromise)"
  by (simp add: run_def)

lemma run_ready_eq:
  assumes "ready s \<or> hasTriggerReady s"
  shows "run opts args s =
           (if run_throws opts args s then (run_prepared opts args s, TypeError)
            else unit_run opts (run_unit opts args s) args (run_prepared opts args s))"
proof (cases "obj_get (queries s) (currentQueryKey opts args)")
  case None
  then show ?thesis using assms
    by (auto simp: run_def Let_def run_unit_def run_prepared_def run_throws_def latestQuery_upd
        new_query_def obj_get_set)
next
  case (Some uid)
  then show ?thesis using assms
    by (auto simp: run_def Let_def run_unit_def run_prepared_def run_throws_def latestQuery_upd)
qed

lemma run_throws_iff:
  assumes "ready s \<or> hasTriggerReady s"
  shows "snd (run opts args s) = TypeError \<longleftrightarrow> run_throws opts args s"
  by (simp add: run_ready_eq [OF assms] unit_run_eq Let_def)

lemma run_prepared_fields:
  "invocations (run_prepared opts args s) = invocations s"
  "store (run_prepared opts args s) = store s"
  "clock (run_prepared opts args s) = clock s"
  "ready (run_prepared opts args s) = ready s"
  "hasTriggerReady (run_prepared opts args s) = hasTriggerReady s"
  "stopReady_called (run_prepared opts args s) = stopReady_called s"
  "tempReadyParams (run_prepared opts args s) = tempReadyParams s"
  "v_loading (run_prepared opts args s) = v_loading s"
  "v_data (run_prepared opts args s) = v_data s"
  "v_error (run_prepared opts args s) = v_error s"
  "v_params (run_prepared opts args s) = v_params s"
  "latestQueriesKey (run_prepared opts args s) = currentQueryKey opts args"
  by (simp_all add: run_prepared_def new_query_def)

lemma set_ready_stopped:
  "stopReady_called s \<Longrightarrow> set_ready opts v s = (if v = ready s then s else s\<lparr>ready := v\<rparr>)"
  by (simp add: set_ready_def Let_def)

lemma fold_set_ready_stopped:
  "stopReady_called s \<Longrightarrow>
   stopReady_called (fold (set_ready opts) vals s) \<and>
   invocations (fold (set_ready opts) vals s) = invocations s"
proof (induction vals arbitrary: s)
  case Nil
  then show ?case by simp
next
  case (Cons v vals)
  have "stopReady_called (set_ready opts v s)" "invocations (set_ready opts v s) = invocations s"
    using Cons.prems by (simp_all add: set_ready_stopped)
  then show ?case using Cons.IH [of "set_ready opts v s"] by simp
qed

text \<open>
  C2 (as amended). If \<open>ready\<close> is false when \<open>run(args)\<close> is called and the watcher on
  \<open>ready\<close> has not fired yet (\<open>ready\<close> has not changed since construction), \<open>run\<close>
  stores the arguments and returns the resolved promise: the callable is not invoked, no
  unit is created, the current key stays. When \<open>ready\<close> then becomes true, the stored
  arguments are replayed through \<open>run\<close>. Unless that \<open>run\<close> throws, the callable is
  invoked exactly once, with exactly those arguments, and the subscription is stopped,
  so that no later change of \<open>ready\<close> invokes the callable again. The replayed \<open>run\<close>
  throws exactly when the key of the arguments is an inherited name under which
  \<open>queries\<close> has no unit; the callback of the watcher then ends at the exception, with
  the callable not invoked and the subscription left in place.
\<close>

theorem ready_gate_one_shot:
  assumes "\<not> ready s" and "\<not> hasTriggerReady s" and "\<not> stopReady_called s"
  shows "let gated = run opts args s;
             s1 = fst gated;
             s2 = set_ready opts True s1;
             replay = run opts args (s1\<lparr>ready := True, hasTriggerReady := True\<rparr>);
             key = (case queryKey opts of None \<Rightarrow> QUERY_DEFAULT_KEY | Some f \<Rightarrow> f args)
         in snd gated = resolvedPromise
          \<and> s1 = s\<lparr>tempReadyParams := Some args\<rparr>
          \<and> invocations s1 = invocations s
          \<and> queries s1 = queries s \<and> next_uid s1 = next_uid s
          \<and> latestQueriesKey s1 = latestQueriesKey s
          \<and> (snd replay = TypeError) = (obj_get (queries s) key = None \<and> inherited key)
          \<and> (if snd replay = TypeError
              then s2 = fst replay \<and> invocations s2 = invocations s \<and> \<not> stopReady_called s2
              else s2 = (fst replay)\<lparr>stopReady_called := True\<rparr>
                 \<and> (\<exists>uid attempt. invocations s2 = invocations s @ [(uid, attempt, args)])
                 \<and> stopReady_called s2
                 \<and> (\<forall>vals. invocations (fold (set_ready opts) vals s2) = invocations s2))"
proof -
  define s1 where "s1 = s\<lparr>tempReadyParams := Some args\<rparr>"
  define s2 where "s2 = set_ready opts True s1"
  define t where "t = s1\<lparr>ready := True, hasTriggerReady := True\<rparr>"
  have g: "run opts args s = (s1, resolvedPromise)"
    using assms by (simp add: run_gated_eq s1_def)
  have s2_eq: "s2 = (if snd (run opts args t) = TypeError then fst (run opts args t)
                     else (fst (run opts args t))\<lparr>stopReady_called := True\<rparr>)"
    using assms by (simp add: s2_def set_ready_def s1_def t_def Let_def)
  have rt: "ready t \<or> hasTriggerReady t" by (simp add: t_def)
  note r = run_ready_eq [OF rt, of opts args]
  have th: "(snd (run opts args t) = TypeError) = run_throws opts args t"
    by (rule run_throws_iff [OF rt])
  have th': "run_throws opts args t =
      (obj_get (queries s) (currentQueryKey opts args) = None \<and> inherited (currentQueryKey opts args))"
    by (simp add: run_throws_def t_def s1_def)
  show ?thesis
  proof (cases "run_throws opts args t")
    case True
    have "s2 = run_prepared opts args t" using True th by (simp add: s2_eq r)
    then have "invocations s2 = invocations s" "\<not> stopReady_called s2"
      using assms by (simp_all add: run_prepared_fields t_def s1_def)
    then show ?thesis
      unfolding Let_def g fst_conv snd_conv s2_def [symmetric] t_def [symmetric]
      using True th th' s2_eq by (simp add: s1_def currentQueryKey_def)
  next
    case False
    have s2': "s2 = (fst (run opts args t))\<lparr>stopReady_called := True\<rparr>"
      using False th by (simp add: s2_eq)
    have inv: "invocations s2 =
        invocations s @ [(run_unit opts args t, count (units (run_prepared opts args t) (run_unit opts args t)) + 1, args)]"
      using False by (simp add: s2' r unit_run_eq Let_def run_prepared_fields) (simp add: t_def s1_def)
    have st: "stopReady_called s2" by (simp add: s2')
    have later: "\<forall>vals. invocations (fold (set_ready opts) vals s2) = invocations s2"
      using fold_set_ready_stopped [OF st] by blast
    show ?thesis
      unfolding Let_def g fst_conv snd_conv s2_def [symmetric] t_def [symmetric]
      using False th th' inv st later s2' by (simp add: s1_def currentQueryKey_def)
  qed
qed

theorem ready_gate_one_shot_witness:
  "(let s = useAsyncQuery manual_options False empty_store 0;
        s2 = set_ready manual_options True (fst (run manual_options [JNum 5] s))
    in \<not> ready s \<and> \<not> hasTriggerReady s \<and> \<not> stopReady_called s
       \<and> invocations (fst (run manual_options [JNum 5] s)) = []
       \<and> invocations s2 = [(0, 1, [JNum 5])]
       \<and> invocations (set_ready manual_options True (set_ready manual_options False s2)) = [(0, 1, [JNum 5])])"
  using ready_gate_one_shot [where s = "useAsyncQuery manual_options False empty_store 0"
      and opts = manual_options and args = "[JNum 5]"]
  by (simp add: useAsyncQuery_manual_empty sync_state_def latestQuery_def new_query_def
      empty_rstate_def obj_get_def QUERY_DEFAULT_KEY_def manual_options_def Let_def
      run_def currentQueryKey_def unit_run_eq set_ready_def createQuery_def inherited_names_def)

text \<open>
  The claim as stated gates on "ready has never transitioned to true". A registry whose
  \<open>ready\<close> starts true and is then set to false has never seen \<open>ready\<close> go to true, and
  \<open>ready\<close> is false at the call; yet \<open>run(5)\<close> invokes the callable and stores nothing:
  the watcher has fired, and \<open>hasTriggerReady\<close> opens the gate for good.
\<close>

theorem ready_gate_counterexample:
  "\<not> ready ready_then_unready
   \<and> tempReadyParams (fst (run manual_options [JNum 5] ready_then_unready)) = None
   \<and> snd (run manual_options [JNum 5] ready_then_unready) = UnitPromise 0 1
   \<and> invocations (fst (run manual_options [JNum 5] ready_then_unready)) = [(0, 1, [JNum 5])]"
  by (simp add: ready_then_unready_def useAsyncQuery_manual_empty sync_state_def latestQuery_def new_query_def
      empty_rstate_def obj_get_def QUERY_DEFAULT_KEY_def manual_options_def Let_def
      run_def currentQueryKey_def unit_run_eq set_ready_def createQuery_def inherited_names_def)

section \<open>Unmounting and reset\<close>

lemma unmount_step_eq:
  "(let s1 = unit_unmount uid (unit_cancel opts uid s) in s1\<lparr>queries := obj_delete key (queries s1)\<rparr>) =
     s\<lparr>units := (units s)(uid := discarded (units s uid)),
       queries := obj_delete key (queries s),
       store := cache_after opts ((units s uid)\<lparr>loading := False, count := count (units s uid) + 1\<rparr>) s\<rparr>"
  by (simp add: unit_unmount_def unit_cancel_def setState_eq discarded_def Let_def)

lemma unmount_each_frame:
  "unmount_each opts P ks s =
     s\<lparr>units := units (unmount_each opts P ks s),
       queries := queries (unmount_each opts P ks s),
       store := store (unmount_each opts P ks s)\<rparr>"
proof (induction ks arbitrary: s)
  case Nil
  then show ?case by simp
next
  case (Cons k ks)
  show ?case
  proof (cases "P k")
    case False
    then show ?thesis using Cons.IH [of s] by simp
  next
    case True
    show ?thesis
    proof (cases "obj_get (queries s) k")
      case None
      then show ?thesis using True Cons.IH [of s] by simp
    next
      case (Some uid)
      define s' where "s' = s\<lparr>units := (units s)(uid := discarded (units s uid)),
         queries := obj_delete k (queries s),
         store := cache_after opts ((units s uid)\<lparr>loading := False, count := count (units s uid) + 1\<rparr>) s\<rparr>"
      have step: "unmount_each opts P (k # ks) s = unmount_each opts P ks s'"
        using True Some by (simp add: unmount_step_eq s'_def)
      show ?thesis
        unfolding step by (subst Cons.IH [of s']) (simp add: s'_def)
    qed
  qed
qed

lemma unmount_each_fields:
  "next_uid (unmount_each opts P ks s) = next_uid s"
  "latestQueriesKey (unmount_each opts P ks s) = latestQueriesKey s"
  "invocations (unmount_each opts P ks s) = invocations s"
  "clock (unmount_each opts P ks s) = clock s"
  "ready (unmount_each opts P ks s) = ready s"
  "hasTriggerReady (unmount_each opts P ks s) = hasTriggerReady s"
  "stopReady_called (unmount_each opts P ks s) = stopReady_called s"
  "tempReadyParams (unmount_each opts P ks s) = tempReadyParams s"
  "v_loading (unmount_each opts P ks s) = v_loading s"
  "v_data (unmount_each opts P ks s) = v_data s"
  "v_error (unmount_each opts P ks s) = v_error s"
  "v_params (unmount_each opts P ks s) = v_params s"
  by (subst unmount_each_frame, simp)+

lemma obj_get_None_iff: "obj_get q k = None \<longleftrightarrow> k \<notin> fst ` set q"
  by (simp add: obj_get_def map_of_eq_None_iff)

lemma obj_get_Some_iff: "distinct (map fst q) \<Longrightarrow> obj_get q k = Some v \<longleftrightarrow> (k, v) \<in> set q"
  by (simp add: obj_get_def)

lemma unmount_each_queries:
  "queries (unmount_each opts P ks s) =
     filter (\<lambda>e. \<not> (P (fst e) \<and> fst e \<in> set ks)) (queries s)"
proof (induction ks arbitrary: s)
  case Nil
  then show ?case by simp
next
  case (Cons k ks)
  show ?case
  proof (cases "P k")
    case False
    then show ?thesis using Cons.IH [of s] by (auto intro: filter_cong)
  next
    case True
    show ?thesis
    proof (cases "obj_get (queries s) k")
      case None
      then have "\<forall>e \<in> set (queries s). fst e \<noteq> k" by (auto simp: obj_get_None_iff)
      then show ?thesis using None True Cons.IH [of s] by (auto intro: filter_cong)
    next
      case (Some uid)
      define s' where "s' = s\<lparr>units := (units s)(uid := discarded (units s uid)),
         queries := obj_delete k (queries s),
         store := cache_after opts ((units s uid)\<lparr>loading := False, count := count (units s uid) + 1\<rparr>) s\<rparr>"
      have step: "unmount_each opts P (k # ks) s = unmount_each opts P ks s'"
        using True Some by (simp add: unmount_step_eq s'_def)
      have "queries s' = filter (\<lambda>e. fst e \<noteq> k) (queries s)"
        by (simp add: s'_def obj_delete_def)
      then show ?thesis unfolding step Cons.IH [of s'] using True
        by (auto intro: filter_cong)
    qed
  qed
qed

lemma unmount_each_units:
  assumes "distinct ks" "distinct (map fst (queries s))" "distinct (map snd (queries s))"
  shows "units (unmount_each opts P ks s) uid =
     (if \<exists>k \<in> set ks. P k \<and> (k, uid) \<in> set (queries s) then discarded (units s uid)
      else units s uid)"
  using assms
proof (induction ks arbitrary: s)
  case Nil
  then show ?case by simp
next
  case (Cons k ks)
  show ?case
  proof (cases "P k \<and> obj_get (queries s) k \<noteq> None")
    case False
    then have step: "unmount_each opts P (k # ks) s = unmount_each opts P ks s" by auto
    have "\<not> (P k \<and> (k, uid) \<in> set (queries s))"
      using False Cons.prems(2) by (auto simp: obj_get_Some_iff)
    then show ?thesis unfolding step using Cons.IH [of s] Cons.prems by auto
  next
    case True
    then obtain u0 where u0: "obj_get (queries s) k = Some u0" and pk: "P k" by auto
    define s' where "s' = s\<lparr>units := (units s)(u0 := discarded (units s u0)),
         queries := obj_delete k (queries s),
         store := cache_after opts ((units s u0)\<lparr>loading := False, count := count (units s u0) + 1\<rparr>) s\<rparr>"
    have step: "unmount_each opts P (k # ks) s = unmount_each opts P ks s'"
      using pk u0 by (simp add: unmount_step_eq s'_def)
    have in_q: "(k, u0) \<in> set (queries s)" using u0 Cons.prems(2) by (simp add: obj_get_Some_iff)
    have d1: "distinct (map fst (queries s'))" "distinct (map snd (queries s'))"
      using Cons.prems by (simp_all add: s'_def obj_delete_def distinct_map_filter)
    have ih: "units (unmount_each opts P ks s') uid =
       (if \<exists>k' \<in> set ks. P k' \<and> (k', uid) \<in> set (queries s') then discarded (units s' uid)
        else units s' uid)"
      using Cons.IH [of s'] Cons.prems(1) d1 by simp
    have mem: "\<And>k'. k' \<in> set ks \<Longrightarrow> (k', uid) \<in> set (queries s') \<longleftrightarrow> (k', uid) \<in> set (queries s)"
      using Cons.prems(1) by (auto simp: s'_def obj_delete_def)
    have uniq_k: "\<And>k'. (k', u0) \<in> set (queries s) \<Longrightarrow> k' = k"
      using in_q Cons.prems(3) by (metis eq_key_imp_eq_value distinct_map map_of_eq_Some_iff
          fst_conv snd_conv inj_on_def)
    have uniq_u: "\<And>u. (k, u) \<in> set (queries s) \<Longrightarrow> u = u0"
      using in_q Cons.prems(2) by (meson eq_key_imp_eq_value)
    show ?thesis
    proof (cases "uid = u0")
      case True
      have "\<not> (\<exists>k' \<in> set ks. P k' \<and> (k', uid) \<in> set (queries s'))"
        using mem uniq_k Cons.prems(1) True by auto
      moreover have "units s' uid = discarded (units s uid)" using True by (simp add: s'_def)
      moreover have "\<exists>k' \<in> set (k # ks). P k' \<and> (k', uid) \<in> set (queries s)"
        using True in_q pk by auto
      ultimately show ?thesis unfolding step ih by auto
    next
      case False
      have "(\<exists>k' \<in> set (k # ks). P k' \<and> (k', uid) \<in> set (queries s)) \<longleftrightarrow>
            (\<exists>k' \<in> set ks. P k' \<and> (k', uid) \<in> set (queries s'))"
        using mem uniq_u False by auto
      moreover have "units s' uid = units s uid" using False by (simp add: s'_def)
      ultimately show ?thesis unfolding step ih by auto
    qed
  qed
qed


lemma discarded_is_cancel_then_unmount:
  "units (unit_unmount uid (unit_cancel opts uid s)) uid = discarded (units s uid)"
  by (simp add: unit_unmount_def unit_cancel_def setState_eq discarded_def)

text \<open>
  C8. After \<open>reset()\<close>, every unit that \<open>queries\<close> held has been cancelled and unmounted
  (\<open>discarded\<close>: \<open>loading = false\<close>, the attempt in flight superseded, the unit inert)
  and is no longer in the key map; the map holds exactly one unit, new, under the
  default key, with \<open>data\<close> and \<open>error\<close> unset and \<open>loading = false\<close>; and the current
  key is the default key. The hypotheses say that \<open>queries\<close> is an object whose values
  are distinct units created earlier; every state a registry can reach is such
  (\<open>reachable_distinct\<close>).
\<close>

theorem reset_discards_all:
  assumes "distinct (Object_keys (queries s))" and "distinct (Object_values (queries s))"
    and "\<forall>uid \<in> set (Object_values (queries s)). uid < next_uid s"
  shows "queries (reset opts s) = [(QUERY_DEFAULT_KEY, next_uid s)]
       \<and> latestQueriesKey (reset opts s) = QUERY_DEFAULT_KEY
       \<and> units (reset opts s) (next_uid s) = createQuery None
       \<and> data (units (reset opts s) (next_uid s)) = Undefined
       \<and> error (units (reset opts s) (next_uid s)) = Undefined
       \<and> \<not> loading (units (reset opts s) (next_uid s))
       \<and> (\<forall>uid \<in> set (Object_values (queries s)).
             units (reset opts s) uid = discarded (units s uid)
             \<and> uid \<notin> set (Object_values (queries (reset opts s))))"
proof -
  define s1 where "s1 = unmountQueries opts s"
  have q1: "queries s1 = []"
    by (simp add: s1_def unmountQueries_def unmount_each_queries Object_keys_def)
  have n1: "next_uid s1 = next_uid s"
    by (simp add: s1_def unmountQueries_def unmount_each_fields)
  have u1: "units s1 uid = (if uid \<in> set (Object_values (queries s)) then discarded (units s uid) else units s uid)" for uid
  proof -
    have "(\<exists>k \<in> set (map fst (queries s)). True \<and> (k, uid) \<in> set (queries s)) \<longleftrightarrow> uid \<in> snd ` set (queries s)"
      by force
    then show ?thesis
      using unmount_each_units [of "map fst (queries s)" s opts "\<lambda>key. True" uid] assms(1,2)
      by (simp add: s1_def unmountQueries_def Object_keys_def Object_values_def)
  qed
  have r: "reset opts s = new_query QUERY_DEFAULT_KEY None (s1\<lparr>latestQueriesKey := QUERY_DEFAULT_KEY\<rparr>)"
    by (simp add: reset_def s1_def Let_def)
  have "\<forall>uid \<in> set (Object_values (queries s)).
          units (reset opts s) uid = discarded (units s uid)
          \<and> uid \<notin> set (Object_values (queries (reset opts s)))"
    using assms(3) by (auto simp: r new_query_def q1 n1 u1 Object_values_def)
  then show ?thesis
    by (simp add: r new_query_def q1 n1 createQuery_def)
qed

theorem reset_discards_all_witness:
  "distinct (Object_keys (queries two_keys)) \<and> distinct (Object_values (queries two_keys))
   \<and> Object_values (queries two_keys) = [1, 0] \<and> next_uid two_keys = 2
   \<and> queries (reset manual_options two_keys) = [(QUERY_DEFAULT_KEY, 2)]
   \<and> units (reset manual_options two_keys) 1 = discarded (units two_keys 1)
   \<and> units (reset manual_options two_keys) 0 = discarded (units two_keys 0)
   \<and> loading (units two_keys 1) \<and> \<not> loading (units (reset manual_options two_keys) 1)
   \<and> unmounted (units (reset manual_options two_keys) 1)"
proof -
  have q: "queries two_keys = [(Idx 5, 1), (QUERY_DEFAULT_KEY, 0)]" "next_uid two_keys = 2"
    "loading (units two_keys 1)"
    by (simp_all add: two_keys_def useAsyncQuery_manual_empty sync_state_def latestQuery_def new_query_def
      empty_rstate_def obj_get_def QUERY_DEFAULT_KEY_def manual_options_def first_arg_key_def Let_def
      run_def inherited_names_def currentQueryKey_def unit_run_eq)
  have h: "distinct (Object_keys (queries two_keys))" "distinct (Object_values (queries two_keys))"
    "\<forall>uid \<in> set (Object_values (queries two_keys)). uid < next_uid two_keys"
    by (simp_all add: q Object_keys_def Object_values_def QUERY_DEFAULT_KEY_def)
  show ?thesis
    using reset_discards_all [OF h, of manual_options] h q
    by (simp add: Object_values_def discarded_def)
qed

section \<open>Construction and the initial automatic run\<close>




lemma sync_state_fields:
  "units (sync_state s) = units s" "next_uid (sync_state s) = next_uid s"
  "queries (sync_state s) = queries s" "latestQueriesKey (sync_state s) = latestQueriesKey s"
  "invocations (sync_state s) = invocations s" "store (sync_state s) = store s"
  "clock (sync_state s) = clock s" "ready (sync_state s) = ready s"
  "hasTriggerReady (sync_state s) = hasTriggerReady s"
  "stopReady_called (sync_state s) = stopReady_called s"
  "tempReadyParams (sync_state s) = tempReadyParams s"
  by (simp_all add: sync_state_def split: option.splits)


lemma unit_refresh_eq:
  "fst (unit_refresh opts uid s) =
     (let u = (units s uid)\<lparr>loading := (if 0 < loadingDelay opts then loading (units s uid) else True),
                        count := count (units s uid) + 1\<rparr>
      in s\<lparr>units := (units s)(uid := u), store := cache_after opts u s,
           invocations := invocations s @ [(uid, count (units s uid) + 1, params (units s uid))]\<rparr>)"
  by (simp add: unit_refresh_def unit_run_eq Let_def)

lemma refresh_each_effect:
  "queries (refresh_each opts ks s) = queries s
   \<and> latestQueriesKey (refresh_each opts ks s) = latestQueriesKey s
   \<and> tempReadyParams (refresh_each opts ks s) = tempReadyParams s
   \<and> next_uid (refresh_each opts ks s) = next_uid s
   \<and> (\<forall>u. params (units (refresh_each opts ks s) u) = params (units s u))
   \<and> invoked (refresh_each opts ks s) =
       invoked s @ concat (map (\<lambda>k. case obj_get (queries s) k of None \<Rightarrow> []
                                   | Some uid \<Rightarrow> [(uid, params (units s uid))]) ks)"
proof (induction ks arbitrary: s)
  case Nil
  then show ?case by simp
next
  case (Cons k ks)
  show ?case
  proof (cases "obj_get (queries s) k")
    case None
    then show ?thesis using Cons.IH [of s] by simp
  next
    case (Some uid)
    define s' where "s' = fst (unit_refresh opts uid s)"
    have step: "refresh_each opts (k # ks) s = refresh_each opts ks s'"
      using Some by (simp add: s'_def)
    have s': "queries s' = queries s" "latestQueriesKey s' = latestQueriesKey s"
      "tempReadyParams s' = tempReadyParams s" "next_uid s' = next_uid s"
      "\<forall>u. params (units s' u) = params (units s u)"
      "invoked s' = invoked s @ [(uid, params (units s uid))]"
      by (simp_all add: s'_def unit_refresh_eq Let_def invoked_def)
    show ?thesis
      unfolding step using Cons.IH [of s'] Some by (simp add: s' cong: option.case_cong)
  qed
qed




section \<open>The shared cache store\<close>


lemma cache_after_store_only:
  "cache_after opts u (s\<lparr>store := st\<rparr>) = cache_after opts u (t\<lparr>store := st, clock := clock s\<rparr>)"
  by (simp add: cache_after_def updateCache_def Let_def split: option.splits)












section \<open>The flattened view\<close>

lemma reset_view:
  "v_loading (reset opts s) = v_loading s \<and> v_data (reset opts s) = v_data s
   \<and> v_error (reset opts s) = v_error s \<and> v_params (reset opts s) = v_params s"
  by (simp add: reset_def Let_def new_query_def unmountQueries_def unmount_each_fields)

lemma run_view:
  "v_loading (fst (run opts args s)) = v_loading s \<and> v_data (fst (run opts args s)) = v_data s
   \<and> v_error (fst (run opts args s)) = v_error s \<and> v_params (fst (run opts args s)) = v_params s"
proof (cases "ready s \<or> hasTriggerReady s")
  case True
  show ?thesis
    by (simp add: run_ready_eq [OF True] unit_run_eq Let_def run_prepared_fields)
next
  case False
  then show ?thesis by (simp add: run_gated_eq)
qed

text \<open>
  C7 (as amended). One key is current at any time (\<open>latestQueriesKey\<close>). The view is
  brought in line with the current unit by the callback of the watcher, which copies
  \<open>loading\<close>, \<open>data\<close>, \<open>error\<close> and \<open>params\<close> of the current unit in one step (four times
  \<open>undefined\<close> when the current key has no unit) and touches nothing else; it runs at
  registration and at each later flush of the watchers. The operation that changes a
  unit or switches the current key does not run it: a unit state change, \<open>run\<close> and
  \<open>reset\<close> leave the view as it was.
\<close>

theorem view_mirrors_at_flush:
  "(case latestQuery s of
      None \<Rightarrow>
        v_loading (sync_state s) = None \<and> v_data (sync_state s) = Undefined
        \<and> v_error (sync_state s) = Undefined \<and> v_params (sync_state s) = None
    | Some uid \<Rightarrow>
        v_loading (sync_state s) = Some (loading (units s uid))
        \<and> v_data (sync_state s) = data (units s uid)
        \<and> v_error (sync_state s) = error (units s uid)
        \<and> v_params (sync_state s) = Some (params (units s uid)))
   \<and> latestQuery (sync_state s) = latestQuery s
   \<and> units (sync_state s) = units s \<and> queries (sync_state s) = queries s
   \<and> sync_state (sync_state s) = sync_state s
   \<and> v_loading (setState opts uid f s) = v_loading s \<and> v_data (setState opts uid f s) = v_data s
   \<and> v_error (setState opts uid f s) = v_error s \<and> v_params (setState opts uid f s) = v_params s
   \<and> v_loading (fst (run opts args s)) = v_loading s \<and> v_data (fst (run opts args s)) = v_data s
   \<and> v_error (fst (run opts args s)) = v_error s \<and> v_params (fst (run opts args s)) = v_params s
   \<and> v_loading (reset opts s) = v_loading s \<and> v_data (reset opts s) = v_data s
   \<and> v_error (reset opts s) = v_error s \<and> v_params (reset opts s) = v_params s"
proof -
  have a: "(case latestQuery s of
      None \<Rightarrow>
        v_loading (sync_state s) = None \<and> v_data (sync_state s) = Undefined
        \<and> v_error (sync_state s) = Undefined \<and> v_params (sync_state s) = None
    | Some uid \<Rightarrow>
        v_loading (sync_state s) = Some (loading (units s uid))
        \<and> v_data (sync_state s) = data (units s uid)
        \<and> v_error (sync_state s) = error (units s uid)
        \<and> v_params (sync_state s) = Some (params (units s uid)))"
    by (simp add: sync_state_def split: option.splits)
  have b: "latestQuery (sync_state s) = latestQuery s"
    by (simp add: latestQuery_def sync_state_fields)
  have c: "sync_state (sync_state s) = sync_state s"
    by (simp add: sync_state_def latestQuery_def split: option.splits)
  have d: "v_loading (setState opts uid f s) = v_loading s \<and> v_data (setState opts uid f s) = v_data s
   \<and> v_error (setState opts uid f s) = v_error s \<and> v_params (setState opts uid f s) = v_params s"
    by (simp add: setState_eq)
  show ?thesis
    using a b c d run_view [of opts args s] reset_view [of opts s]
    by (simp add: sync_state_fields)
qed

text \<open>
  The claim as stated has the view equal to the current unit in every reachable state.
  Right after \<open>run(5)\<close> on a new registry the current unit has \<open>params = [5]\<close> and
  \<open>loading = true\<close>, and the view still has \<open>params = []\<close> and \<open>loading = false\<close>.
\<close>

theorem view_stale_counterexample:
  "latestQuery after_run = Some 0
   \<and> params (units after_run 0) = [JNum 5] \<and> v_params after_run = Some []
   \<and> loading (units after_run 0) \<and> v_loading after_run = Some False"
  by (simp add: after_run_def useAsyncQuery_manual_empty sync_state_def latestQuery_def new_query_def
      empty_rstate_def obj_get_def QUERY_DEFAULT_KEY_def manual_options_def Let_def
      run_def inherited_names_def currentQueryKey_def unit_run_eq createQuery_def)

section \<open>The accumulation layer: loadMore and the page counter\<close>

lemma resolve_eq:
  "resolve opts uid attempt res s =
     (if attempt = count (units s uid)
      then (s\<lparr>units := (units s)(uid := (units s uid)\<lparr>data := res, loading := False, error := Undefined\<rparr>),
              store := cache_after opts ((units s uid)\<lparr>data := res, loading := False, error := Undefined\<rparr>) s\<rparr>,
            True)
      else (s, False))"
  by (simp add: resolve_def setState_eq)

lemma reject_eq:
  "reject opts uid attempt err s =
     (if attempt = count (units s uid)
      then (s\<lparr>units := (units s)(uid := (units s uid)\<lparr>data := Undefined, loading := False, error := err\<rparr>),
              store := cache_after opts ((units s uid)\<lparr>data := Undefined, loading := False, error := err\<rparr>) s\<rparr>,
            True)
      else (s, False))"
  by (simp add: reject_def setState_eq)

text \<open>
  The key function of the accumulation layer gives the string of a number, which is
  not an inherited name: a \<open>run\<close> of the layer does not throw.
\<close>

lemma lm_run_does_not_throw:
  "snd (run (registry_options lopts s) args r) \<noteq> TypeError"
proof (cases "ready r \<or> hasTriggerReady r")
  case True
  have "\<not> run_throws (registry_options lopts s) args r"
    by (simp add: run_throws_def currentQueryKey_def registry_options_def)
  then show ?thesis by (simp add: run_throws_iff [OF True])
next
  case False
  then show ?thesis by (simp add: run_gated_eq)
qed




section \<open>The accumulation layer: the exposed data\<close>

lemma latest_key_nat: "0 < c \<Longrightarrow> nat (int c - 1) = c - 1"
  by arith







section \<open>The accumulation layer: refresh\<close>

lemma same_value_same_key:
  "distinct (map snd q) \<Longrightarrow> (k, u) \<in> set q \<Longrightarrow> (k', u) \<in> set q \<Longrightarrow> k = k'"
  using inj_onD [of snd "set q" "(k, u)" "(k', u)"] by (auto simp: distinct_map)

lemma lm_refresh_start_eq:
  assumes "obj_get (queries (reg s)) (Idx (increaseQueryKey s - 1)) = Some uid"
    and "v_params (reg s) = Some ps"
  shows "lm_refresh_start lopts s =
           (s\<lparr>refreshing := True, latestData := data (units (reg s) uid),
              increaseQueryKey := 0,
              reg := fst (run ((restOptions lopts)\<lparr>queryKey := Some (\<lambda>args. Idx 0)\<rparr>)
                           (Undefined # tl ps) (reg s))\<rparr>,
            Awaits (snd (run ((restOptions lopts)\<lparr>queryKey := Some (\<lambda>args. Idx 0)\<rparr>)
                           (Undefined # tl ps) (reg s))))"
proof (cases "increaseQueryKey s = 0")
  case True
  then show ?thesis using assms
    by (simp add: lm_refresh_start_def Let_def registry_options_def)
next
  case False
  then have "nat (int (increaseQueryKey s) - 1) = increaseQueryKey s - 1"
    by (simp add: latest_key_nat)
  then show ?thesis using False assms
    by (simp add: lm_refresh_start_def Let_def registry_options_def)
qed

lemma lm_refresh_finish_effect:
  assumes "distinct (Object_keys (queries (reg t)))" and "distinct (Object_values (queries (reg t)))"
  shows "queries (reg (lm_refresh_finish lopts t)) = filter (\<lambda>e. fst e = Idx 0) (queries (reg t))
       \<and> \<not> refreshing (lm_refresh_finish lopts t)
       \<and> latestQueriesKey (reg (lm_refresh_finish lopts t)) = latestQueriesKey (reg t)
       \<and> (\<forall>e \<in> set (queries (reg t)).
             units (reg (lm_refresh_finish lopts t)) (snd e) =
               (if fst e = Idx 0 then units (reg t) (snd e) else discarded (units (reg t) (snd e))))"
proof -
  define r where "r = unmount_each (registry_options lopts t) (\<lambda>key. key \<noteq> Idx 0)
                        (map fst (queries (reg t))) (reg t)"
  have reg: "reg (lm_refresh_finish lopts t) = r"
    by (simp add: lm_refresh_finish_def lm_unmountQueries_def r_def Object_keys_def)
  have q: "queries r = filter (\<lambda>e. fst e = Idx 0) (queries (reg t))"
    unfolding r_def unmount_each_queries by (rule filter_cong) auto
  have d: "distinct (map fst (queries (reg t)))" "distinct (map snd (queries (reg t)))"
    using assms by (simp_all add: Object_keys_def Object_values_def)
  have u: "units r (snd e) =
      (if fst e = Idx 0 then units (reg t) (snd e) else discarded (units (reg t) (snd e)))"
    if e: "e \<in> set (queries (reg t))" for e
  proof -
    have "(\<exists>k \<in> set (map fst (queries (reg t))). k \<noteq> Idx 0 \<and> (k, snd e) \<in> set (queries (reg t)))
          \<longleftrightarrow> fst e \<noteq> Idx 0"
    proof
      assume "\<exists>k \<in> set (map fst (queries (reg t))). k \<noteq> Idx 0 \<and> (k, snd e) \<in> set (queries (reg t))"
      then obtain k where k: "k \<noteq> Idx 0" "(k, snd e) \<in> set (queries (reg t))" by blast
      have "(fst e, snd e) \<in> set (queries (reg t))" using e by simp
      from same_value_same_key [OF d(2) k(2) this] k(1) show "fst e \<noteq> Idx 0" by simp
    next
      assume "fst e \<noteq> Idx 0"
      moreover have "(fst e, snd e) \<in> set (queries (reg t))" using e by simp
      moreover have "fst e \<in> set (map fst (queries (reg t)))" using e by simp
      ultimately show "\<exists>k \<in> set (map fst (queries (reg t))). k \<noteq> Idx 0 \<and> (k, snd e) \<in> set (queries (reg t))"
        by blast
    qed
    then show ?thesis
      unfolding r_def
      using unmount_each_units [OF d(1) d(1) d(2), of "registry_options lopts t" "\<lambda>key. key \<noteq> Idx 0" "snd e"]
      by auto
  qed
  show ?thesis
    using q u by (simp add: reg) (simp add: lm_refresh_finish_def r_def unmount_each_fields)
qed

text \<open>
  C3 (as amended). When the unit under the key counter - 1 (key 0 when the counter is
  0) exists, which is the most recently loaded page when at least one page is loaded,
  and \<open>params\<close> is set, \<open>refresh()\<close> sets the exposed data to that unit's data, resets
  the counter to 0 and re-runs, under key \<open>"0"\<close>, with \<open>undefined\<close> in place of the
  merged-data argument followed by the trailing parameters. Once that run has settled,
  every unit whose key is not \<open>"0"\<close> is cancelled, unmounted and deleted (the unit under
  the default key too) and the unit under key \<open>"0"\<close> is kept as it is. After three
  pages, the registry is left with the unit of the first page alone, its params
  \<open>[undefined, ...trailing]\<close>, and the units of pages 2 and 3 are discarded. The state
  \<open>t\<close> is the one in which the awaited run has settled; its hypotheses hold in every
  state the layer can reach (\<open>lm_reachable_distinct\<close>).
\<close>

theorem refresh_collapses:
  assumes "obj_get (queries (reg s)) (Idx (increaseQueryKey s - 1)) = Some uid"
    and "v_params (reg s) = Some ps"
    and "distinct (Object_keys (queries (reg t)))"
    and "distinct (Object_values (queries (reg t)))"
  shows "lm_refresh_start lopts s =
           (s\<lparr>refreshing := True, latestData := data (units (reg s) uid),
              increaseQueryKey := 0,
              reg := fst (run ((restOptions lopts)\<lparr>queryKey := Some (\<lambda>args. Idx 0)\<rparr>)
                           (Undefined # tl ps) (reg s))\<rparr>,
            Awaits (snd (run ((restOptions lopts)\<lparr>queryKey := Some (\<lambda>args. Idx 0)\<rparr>)
                           (Undefined # tl ps) (reg s))))
       \<and> queries (reg (lm_refresh_finish lopts t)) = filter (\<lambda>e. fst e = Idx 0) (queries (reg t))
       \<and> \<not> refreshing (lm_refresh_finish lopts t)
       \<and> latestQueriesKey (reg (lm_refresh_finish lopts t)) = latestQueriesKey (reg t)
       \<and> (\<forall>e \<in> set (queries (reg t)).
             units (reg (lm_refresh_finish lopts t)) (snd e) =
               (if fst e = Idx 0 then units (reg t) (snd e) else discarded (units (reg t) (snd e))))
       \<and> queries (reg page_three) = [(Idx 0, 1), (Idx 1, 2), (Idx 2, 3), (QUERY_DEFAULT_KEY, 0)]
       \<and> queries (reg refreshed_three) = [(Idx 0, 1)]
       \<and> params (units (reg refreshed_three) 1) = [Undefined, JStr ''q'']
       \<and> \<not> unmounted (units (reg refreshed_three) 1)
       \<and> unmounted (units (reg refreshed_three) 2)
       \<and> unmounted (units (reg refreshed_three) 3)
       \<and> unmounted (units (reg refreshed_three) 0)"
proof -
  have sc: "queries (reg page_three) = [(Idx 0, 1), (Idx 1, 2), (Idx 2, 3), (QUERY_DEFAULT_KEY, 0)]"
    "queries (reg refreshed_three) = [(Idx 0, 1)]"
    "params (units (reg refreshed_three) 1) = [Undefined, JStr ''q'']"
    "\<not> unmounted (units (reg refreshed_three) 1)"
    "unmounted (units (reg refreshed_three) 2)"
    "unmounted (units (reg refreshed_three) 3)"
    "unmounted (units (reg refreshed_three) 0)"
    by code_simp+
  show ?thesis
    using lm_refresh_start_eq [OF assms(1,2), of lopts] lm_refresh_finish_effect [OF assms(3,4), of lopts] sc
    by simp
qed

theorem refresh_collapses_witness:
  "obj_get (queries (reg page_three)) (Idx (increaseQueryKey page_three - 1)) = Some 3
   \<and> v_params (reg page_three) =
       Some [JObj [(''dataList'', JArr [JNum 1, JNum 2, JNum 3, JNum 4]), (''data'', page2)],
             JStr ''q'']
   \<and> distinct (Object_keys (queries (reg refresh_settled)))
   \<and> distinct (Object_values (queries (reg refresh_settled)))
   \<and> snd (lm_refresh_start lm_demo_options page_three) = Awaits (UnitPromise 1 2)
   \<and> latestData (fst (lm_refresh_start lm_demo_options page_three)) = page3
   \<and> increaseQueryKey (fst (lm_refresh_start lm_demo_options page_three)) = 0
   \<and> queries (reg (lm_refresh_finish lm_demo_options refresh_settled)) = [(Idx 0, 1)]
   \<and> \<not> refreshing (lm_refresh_finish lm_demo_options refresh_settled)"
proof -
  have h: "obj_get (queries (reg page_three)) (Idx (increaseQueryKey page_three - 1)) = Some 3"
    "v_params (reg page_three) =
       Some [JObj [(''dataList'', JArr [JNum 1, JNum 2, JNum 3, JNum 4]), (''data'', page2)],
             JStr ''q'']"
    "distinct (Object_keys (queries (reg refresh_settled)))"
    "distinct (Object_values (queries (reg refresh_settled)))"
    by code_simp+
  have e: "data (units (reg page_three) 3) = page3"
    "snd (run ((restOptions lm_demo_options)\<lparr>queryKey := Some (\<lambda>args. Idx 0)\<rparr>)
            [Undefined, JStr ''q''] (reg page_three)) = UnitPromise 1 2"
    "queries (reg refresh_settled) = [(Idx 0, 1), (Idx 1, 2), (Idx 2, 3), (QUERY_DEFAULT_KEY, 0)]"
    "increaseQueryKey page_three = 3"
    by code_simp+
  show ?thesis
    using refresh_collapses [OF h, of lm_demo_options] h e
    by (simp add: QUERY_DEFAULT_KEY_def Object_keys_def Object_values_def obj_get_def)
qed

text \<open>
  The claim as stated has \<open>refresh()\<close> after three pages leave one unit whose params
  equal those of page 2 and discard pages 1 and 3, using the data of the
  second-most-recent key. In the run of three pages the unit left is the one of page 1
  (key \<open>"0"\<close>, not unmounted), its params are \<open>[undefined, "q"]\<close> and differ from those
  of page 2, the unit of page 2 (key \<open>"1"\<close>) is unmounted, and the data \<open>refresh\<close> takes
  is that of page 3, the most recent one.
\<close>

theorem refresh_counterexample:
  "queries (reg page_three) = [(Idx 0, 1), (Idx 1, 2), (Idx 2, 3), (QUERY_DEFAULT_KEY, 0)]
   \<and> increaseQueryKey page_three = 3
   \<and> queries (reg refreshed_three) = [(Idx 0, 1)]
   \<and> \<not> unmounted (units (reg refreshed_three) 1)
   \<and> unmounted (units (reg refreshed_three) 2)
   \<and> params (units (reg refreshed_three) 1) = [Undefined, JStr ''q'']
   \<and> params (units (reg page_three) 2) =
       [JObj [(''dataList'', JArr [JNum 1, JNum 2]), (''data'', page1)], JStr ''q'']
   \<and> params (units (reg refreshed_three) 1) \<noteq> params (units (reg page_three) 2)
   \<and> data (units (reg page_three) 2) = page2
   \<and> latestData (fst (lm_refresh_start lm_demo_options page_three)) = page3
   \<and> page3 \<noteq> page2"
  by code_simp

section \<open>The accumulated list\<close>

lemma keys_obj_set: "fst ` set (obj_set k v q) = insert k (fst ` set q)"
proof (induction q)
  case Nil
  then show ?case by simp
next
  case (Cons e q)
  obtain k' v' where e: "e = (k', v')" by (cases e)
  show ?case
    using Cons.IH by (cases "k = k'"; cases "comes_before k k'") (auto simp: e)
qed

lemma comes_before_precedes: "comes_before k k' \<Longrightarrow> key_precedes k k' \<and> k \<noteq> k'"
  by (cases k; cases k') auto

lemma comes_before_trans:
  "comes_before k k' \<Longrightarrow> key_precedes k' y \<Longrightarrow> key_precedes k y \<and> k \<noteq> y"
  by (cases k; cases k'; cases y) auto

lemma not_comes_before_precedes:
  "\<not> comes_before k k' \<Longrightarrow> k \<noteq> k' \<Longrightarrow> key_precedes k' k"
  by (cases k; cases k') auto

lemma js_object_set: "js_object q \<Longrightarrow> js_object (obj_set k v q)"
proof (induction q)
  case Nil
  then show ?case by (simp add: js_object_def)
next
  case (Cons e q)
  obtain k' v' where e: "e = (k', v')" by (cases e)
  have tail: "js_object q" using Cons.prems by (simp add: js_object_def)
  have hd: "\<forall>y \<in> fst ` set q. key_precedes k' y" "k' \<notin> fst ` set q"
    using Cons.prems by (auto simp: js_object_def e)
  show ?case
  proof (cases "k = k'")
    case True
    then show ?thesis using Cons.prems by (simp add: e js_object_def)
  next
    case False
    show ?thesis
    proof (cases "comes_before k k'")
      case True
      have "\<forall>y \<in> fst ` set q. key_precedes k y \<and> k \<noteq> y"
        using hd(1) comes_before_trans [OF True] by blast
      then show ?thesis
        using True False Cons.prems comes_before_precedes [OF True]
        by (auto simp: e js_object_def)
    next
      case nb: False
      have ih: "js_object (obj_set k v q)" using Cons.IH tail by simp
      have "key_precedes k' k" using not_comes_before_precedes [OF nb False] .
      then have "\<forall>y \<in> fst ` set (obj_set k v q). key_precedes k' y"
        using hd(1) unfolding keys_obj_set by blast
      moreover have "k' \<notin> fst ` set (obj_set k v q)"
        using hd(2) False unfolding keys_obj_set by blast
      ultimately show ?thesis
        using nb False ih by (simp add: e js_object_def)
    qed
  qed
qed

lemma js_object_filter: "js_object q \<Longrightarrow> js_object (filter (\<lambda>e. Q (fst e)) q)"
proof -
  have "map fst (filter (\<lambda>e. Q (fst e)) q) = filter Q (map fst q)"
    by (simp add: filter_map comp_def)
  then show "js_object q \<Longrightarrow> js_object (filter (\<lambda>e. Q (fst e)) q)"
    by (simp add: js_object_def sorted_wrt_filter)
qed

lemma js_object_run: "js_object (queries s) \<Longrightarrow> js_object (queries (fst (run opts args s)))"
proof (cases "ready s \<or> hasTriggerReady s")
  case True
  assume "js_object (queries s)"
  then show ?thesis
    by (simp add: run_ready_eq [OF True] unit_run_eq Let_def run_prepared_def new_query_def
        js_object_set)
next
  case False
  assume "js_object (queries s)"
  then show ?thesis using False by (simp add: run_gated_eq)
qed

lemma js_object_unmount_each:
  "js_object (queries s) \<Longrightarrow> js_object (queries (unmount_each opts P ks s))"
  unfolding unmount_each_queries by (rule js_object_filter)

lemma js_object_reset: "js_object (queries (reset opts s))"
proof -
  have "queries (unmountQueries opts s) = []"
    by (simp add: unmountQueries_def unmount_each_queries Object_keys_def)
  then show ?thesis
    by (simp add: reset_def Let_def new_query_def js_object_def)
qed

lemma js_object_set_ready:
  "js_object (queries s) \<Longrightarrow> js_object (queries (set_ready opts val s))"
proof -
  assume j: "js_object (queries s)"
  have "js_object (queries (fst (run opts args (s\<lparr>ready := val, hasTriggerReady := True\<rparr>))))" for args
    using j by (intro js_object_run) simp
  then show ?thesis using j
    by (auto simp: set_ready_def Let_def split: option.splits)
qed

lemma js_object_fold_new_query:
  "js_object (queries s) \<Longrightarrow>
   js_object (queries (fold (\<lambda>e. new_query (fst e) (Some (snd e))) cq s))"
proof (induction cq arbitrary: s)
  case Nil
  then show ?case by simp
next
  case (Cons e cq)
  have "js_object (queries (new_query (fst e) (Some (snd e)) s))"
    using Cons.prems by (simp add: new_query_def js_object_set)
  then show ?case using Cons.IH by simp
qed

lemma js_object_rehydrate:
  "js_object (queries s) \<Longrightarrow> js_object (queries (rehydrate opts s))"
  by (simp add: rehydrate_def Let_def js_object_fold_new_query split: option.splits)

lemma js_object_useAsyncQuery: "js_object (queries (useAsyncQuery opts rdy st now))"
proof -
  define s0 where "s0 = rehydrate opts (sync_state (new_query QUERY_DEFAULT_KEY None (empty_rstate rdy st now)))"
  have "js_object (queries (sync_state (new_query QUERY_DEFAULT_KEY None (empty_rstate rdy st now))))"
    by (simp add: sync_state_fields new_query_def empty_rstate_def js_object_def)
  then have j0: "js_object (queries s0)" unfolding s0_def by (rule js_object_rehydrate)
  have "queries (refresh_each opts ks s0) = queries s0" for ks
    using refresh_each_effect [of opts ks s0] by simp
  then show ?thesis
    using j0 js_object_run [OF j0]
    by (simp add: useAsyncQuery_def initial_run_def s0_def [symmetric])
qed

lemma queries_setState: "queries (setState opts uid f s) = queries s"
  by (simp add: setState_eq)

lemma js_object_reachable:
  "lm_reachable lopts s \<Longrightarrow> js_object (queries (reg s))"
proof (induction rule: lm_reachable.induct)
  case (init ready0 st now)
  then show ?case by (simp add: useLoadMore_def Let_def js_object_useAsyncQuery)
next
  case (flush s)
  then show ?case by (simp add: lm_flush_def Let_def sync_state_fields)
next
  case (loadMore s)
  then show ?case
    by (simp add: loadMore_def Let_def js_object_run split: option.splits)
next
  case (refresh_start s)
  then show ?case
    by (simp add: lm_refresh_start_def Let_def js_object_run split: option.splits)
next
  case (refresh_finish s)
  then show ?case
    by (simp add: lm_refresh_finish_def lm_unmountQueries_def js_object_unmount_each)
next
  case (reload_start s)
  then show ?case
    by (simp add: lm_reload_start_def Let_def js_object_run js_object_reset split: option.splits)
next
  case (reload_finish s)
  then show ?case by (simp add: lm_reload_finish_def)
next
  case (cancel s)
  then show ?case
    by (simp add: lm_cancel_def cancel_def unit_cancel_def queries_setState split: option.splits)
next
  case (resolve s uid attempt res)
  then show ?case by (simp add: lm_resolve_def Let_def resolve_eq)
next
  case (reject s uid attempt err)
  then show ?case by (simp add: lm_reject_def Let_def reject_eq)
next
  case (set_ready s val)
  then show ?case by (simp add: lm_set_ready_def js_object_set_ready)
next
  case (tick s t)
  then show ?case by (simp add: lm_tick_def)
next
  case (run s args)
  then show ?case by (simp add: js_object_run)
next
  case (reset s)
  then show ?case by (simp add: js_object_reset)
qed

lemma foldl_append_lists:
  "foldl (\<lambda>list x. if P x then list @ g x else list) acc xs =
     acc @ concat (map (\<lambda>x. if P x then g x else []) xs)"
  by (induction xs arbitrary: acc) simp_all

lemma truthy_array: "isArray v \<Longrightarrow> truthy v"
  by (cases v) simp_all

lemma elems_not_array: "\<not> isArray v \<Longrightarrow> elems v = []"
  by (cases v) simp_all

lemma dataList_eq_concat:
  "dataList lopts s =
     concat (map (\<lambda>uid. elems (get (data (units (reg s) uid)) (listKey lopts)))
               (Object_values (queries (reg s))))"
proof -
  have f: "(\<lambda>list uid. let dl = get (data (units (reg s) uid)) (listKey lopts)
                        in if truthy dl \<and> isArray dl then list @ elems dl else list) =
           (\<lambda>list uid. if isArray (get (data (units (reg s) uid)) (listKey lopts))
                        then list @ elems (get (data (units (reg s) uid)) (listKey lopts)) else list)"
    by (auto simp: Let_def fun_eq_iff truthy_array)
  have g: "(\<lambda>uid. if isArray (get (data (units (reg s) uid)) (listKey lopts))
                   then elems (get (data (units (reg s) uid)) (listKey lopts)) else []) =
           (\<lambda>uid. elems (get (data (units (reg s) uid)) (listKey lopts)))"
    by (auto simp: fun_eq_iff elems_not_array)
  show ?thesis
    unfolding dataList_def f
    by (simp add: foldl_append_lists [where P = "\<lambda>uid. isArray (get (data (units (reg s) uid)) (listKey lopts))"
          and g = "\<lambda>uid. elems (get (data (units (reg s) uid)) (listKey lopts))"] g)
qed

text \<open>
  C6. In every state the accumulation layer can reach, \<open>dataList\<close> is the concatenation,
  over the units of the registry in the order of \<open>Object.values\<close>, of the array found
  in each unit's data at the configured path, where a unit whose extraction is absent or
  is not an array contributes nothing (\<open>elems\<close> of it is empty); that order has the
  page keys in ascending numeric order, before any other key, and no key twice. The
  path is \<open>"list"\<close> when none is configured. After a first page \<open>{list:[1,2]}\<close> and a
  \<open>loadMore()\<close> that returns \<open>{list:[3,4]}\<close>, \<open>dataList\<close> is \<open>[1,2,3,4]\<close>.
\<close>

theorem dataList_concatenates_pages:
  assumes "lm_reachable lopts s"
  shows "dataList lopts s =
           concat (map (\<lambda>uid. elems (get (data (units (reg s) uid)) (listKey lopts)))
                     (Object_values (queries (reg s))))
       \<and> sorted_wrt key_precedes (Object_keys (queries (reg s)))
       \<and> distinct (Object_keys (queries (reg s)))
       \<and> listKey lopts = (case listKey_option lopts of None \<Rightarrow> ''list'' | Some k \<Rightarrow> k)
       \<and> listKey lm_demo_options = ''list''
       \<and> data (units (reg page_two) 1) = JObj [(''list'', JArr [JNum 1, JNum 2])]
       \<and> data (units (reg page_two) 2) = JObj [(''list'', JArr [JNum 3, JNum 4])]
       \<and> dataList lm_demo_options page_one = [JNum 1, JNum 2]
       \<and> dataList lm_demo_options page_two = [JNum 1, JNum 2, JNum 3, JNum 4]"
proof -
  have sc: "listKey lm_demo_options = ''list''"
    "data (units (reg page_two) 1) = JObj [(''list'', JArr [JNum 1, JNum 2])]"
    "data (units (reg page_two) 2) = JObj [(''list'', JArr [JNum 3, JNum 4])]"
    "dataList lm_demo_options page_one = [JNum 1, JNum 2]"
    "dataList lm_demo_options page_two = [JNum 1, JNum 2, JNum 3, JNum 4]"
    by code_simp+
  show ?thesis
    using js_object_reachable [OF assms] dataList_eq_concat [of lopts s] sc
    by (simp add: js_object_def Object_keys_def listKey_def)
qed

theorem dataList_concatenates_pages_witness:
  "lm_reachable lm_demo_options page_two
   \<and> Object_keys (queries (reg page_two)) = [Idx 0, Idx 1, QUERY_DEFAULT_KEY]
   \<and> Object_values (queries (reg page_two)) = [1, 2, 0]
   \<and> dataList lm_demo_options page_two =
       concat (map (\<lambda>uid. elems (get (data (units (reg page_two) uid)) ''list'')) [1, 2, 0])
   \<and> sorted_wrt key_precedes [Idx 0, Idx 1, QUERY_DEFAULT_KEY]"
proof -
  have r1: "lm_reachable lm_demo_options page_one"
    unfolding page_one_def
    by (intro lm_reachable.flush lm_reachable.resolve lm_reachable.init)
  have r: "lm_reachable lm_demo_options page_two"
    unfolding page_two_def
    by (intro lm_reachable.flush lm_reachable.resolve lm_reachable.loadMore r1)
  have e: "Object_keys (queries (reg page_two)) = [Idx 0, Idx 1, QUERY_DEFAULT_KEY]"
    "Object_values (queries (reg page_two)) = [1, 2, 0]"
    "listKey lm_demo_options = ''list''"
    by code_simp+
  show ?thesis
    using dataList_concatenates_pages [OF r] r e by (simp add: QUERY_DEFAULT_KEY_def)
qed

section \<open>Reachable states are well formed\<close>

lemma values_obj_set: "snd ` set (obj_set k v q) \<subseteq> insert v (snd ` set q)"
proof (induction q)
  case Nil
  then show ?case by simp
next
  case (Cons e q)
  obtain k' v' where e: "e = (k', v')" by (cases e)
  show ?case
    using Cons.IH by (cases "k = k'"; cases "comes_before k k'") (auto simp: e)
qed

lemma distinct_values_obj_set:
  "distinct (map snd q) \<Longrightarrow> v \<notin> snd ` set q \<Longrightarrow> distinct (map snd (obj_set k v q))"
proof (induction q)
  case Nil
  then show ?case by simp
next
  case (Cons e q)
  obtain k' v' where e: "e = (k', v')" by (cases e)
  have ih: "distinct (map snd (obj_set k v q))"
    using Cons by simp
  have "v' \<notin> snd ` set (obj_set k v q)"
    using values_obj_set [of k v q] Cons.prems by (auto simp: e)
  then show ?case
    using Cons.prems ih by (cases "k = k'"; cases "comes_before k k'") (auto simp: e)
qed

lemma fresh_units_new_query: "fresh_units s \<Longrightarrow> fresh_units (new_query k init s)"
proof -
  assume f: "fresh_units s"
  then have "next_uid s \<notin> snd ` set (queries s)" by (auto simp: fresh_units_def)
  then have "distinct (map snd (obj_set k (next_uid s) (queries s)))"
    using f by (intro distinct_values_obj_set) (simp_all add: fresh_units_def)
  moreover have "\<forall>uid \<in> snd ` set (obj_set k (next_uid s) (queries s)). uid < next_uid s + 1"
    using values_obj_set [of k "next_uid s" "queries s"] f by (fastforce simp: fresh_units_def)
  ultimately show ?thesis by (simp add: fresh_units_def new_query_def)
qed

lemma fresh_units_cong:
  "queries t = queries s \<Longrightarrow> next_uid t = next_uid s \<Longrightarrow> fresh_units t = fresh_units s"
  by (simp add: fresh_units_def)

lemma fresh_units_run: "fresh_units s \<Longrightarrow> fresh_units (fst (run opts args s))"
proof (cases "ready s \<or> hasTriggerReady s")
  case True
  assume f: "fresh_units s"
  have p: "fresh_units (run_prepared opts args s)"
  proof (cases "obj_get (queries s) (currentQueryKey opts args) = None
                \<and> \<not> inherited (currentQueryKey opts args)")
    case True
    have "fresh_units ((new_query (currentQueryKey opts args) None s)\<lparr>latestQueriesKey := currentQueryKey opts args\<rparr>)
          = fresh_units (new_query (currentQueryKey opts args) None s)"
      by (rule fresh_units_cong) simp_all
    then show ?thesis using True f by (simp add: run_prepared_def fresh_units_new_query)
  next
    case False
    have "fresh_units (s\<lparr>latestQueriesKey := currentQueryKey opts args\<rparr>) = fresh_units s"
      by (rule fresh_units_cong) simp_all
    then show ?thesis using False f by (auto simp: run_prepared_def)
  qed
  have "fresh_units (fst (unit_run opts (run_unit opts args s) args (run_prepared opts args s)))
        = fresh_units (run_prepared opts args s)"
    by (rule fresh_units_cong) (simp_all add: unit_run_eq Let_def)
  then show ?thesis using p by (simp add: run_ready_eq [OF True])
next
  case False
  assume "fresh_units s"
  moreover have "fresh_units (s\<lparr>tempReadyParams := Some args\<rparr>) = fresh_units s"
    by (rule fresh_units_cong) simp_all
  ultimately show ?thesis using False by (simp add: run_gated_eq)
qed

lemma fresh_units_unmount_each:
  "fresh_units s \<Longrightarrow> fresh_units (unmount_each opts P ks s)"
  by (auto simp: fresh_units_def unmount_each_queries unmount_each_fields distinct_map_filter)

lemma fresh_units_reset: "fresh_units (reset opts s)"
proof -
  have "queries (unmountQueries opts s) = []"
    by (simp add: unmountQueries_def unmount_each_queries Object_keys_def)
  then show ?thesis
    by (simp add: reset_def Let_def new_query_def fresh_units_def)
qed

lemma fresh_units_set_ready: "fresh_units s \<Longrightarrow> fresh_units (set_ready opts val s)"
proof -
  assume f: "fresh_units s"
  have a: "fresh_units (s\<lparr>ready := val\<rparr>)" "fresh_units (s\<lparr>ready := val, hasTriggerReady := True\<rparr>)"
    using f by (simp_all add: fresh_units_def)
  have "fresh_units ((fst (run opts args (s\<lparr>ready := val, hasTriggerReady := True\<rparr>)))\<lparr>stopReady_called := True\<rparr>)"
    "fresh_units (fst (run opts args (s\<lparr>ready := val, hasTriggerReady := True\<rparr>)))" for args
    using fresh_units_run [OF a(2), of opts args] by (simp_all add: fresh_units_def)
  then show ?thesis using f a
    by (auto simp: set_ready_def Let_def split: option.splits)
qed

lemma fresh_units_fold_new_query:
  "fresh_units s \<Longrightarrow> fresh_units (fold (\<lambda>e. new_query (fst e) (Some (snd e))) cq s)"
proof (induction cq arbitrary: s)
  case Nil
  then show ?case by simp
next
  case (Cons e cq)
  then show ?case by (simp add: fresh_units_new_query)
qed

lemma fresh_units_rehydrate: "fresh_units s \<Longrightarrow> fresh_units (rehydrate opts s)"
proof -
  assume f: "fresh_units s"
  have "fresh_units ((fold (\<lambda>e. new_query (fst e) (Some (snd e))) cq s)\<lparr>latestQueriesKey := k\<rparr>)" for cq k
    using fresh_units_fold_new_query [OF f, of cq] by (simp add: fresh_units_def)
  then show ?thesis using f
    by (simp add: rehydrate_def Let_def fresh_units_fold_new_query split: option.splits)
qed

lemma fresh_units_useAsyncQuery: "fresh_units (useAsyncQuery opts rdy st now)"
proof -
  define s0 where "s0 = rehydrate opts (sync_state (new_query QUERY_DEFAULT_KEY None (empty_rstate rdy st now)))"
  have "fresh_units (sync_state (new_query QUERY_DEFAULT_KEY None (empty_rstate rdy st now)))"
    by (simp add: fresh_units_def sync_state_fields new_query_def empty_rstate_def)
  then have f0: "fresh_units s0" unfolding s0_def by (rule fresh_units_rehydrate)
  have "fresh_units (refresh_each opts ks s0) = fresh_units s0" for ks
    using refresh_each_effect [of opts ks s0] by (intro fresh_units_cong) simp_all
  then show ?thesis
    using f0 fresh_units_run [OF f0]
    by (simp add: useAsyncQuery_def initial_run_def s0_def [symmetric])
qed

lemma fresh_units_setState: "fresh_units (setState opts uid f s) = fresh_units s"
  by (rule fresh_units_cong) (simp_all add: setState_eq)

lemma reachable_well_formed:
  "reachable opts s \<Longrightarrow> js_object (queries s) \<and> fresh_units s"
proof (induction rule: reachable.induct)
  case (init ready0 st now)
  then show ?case by (simp add: js_object_useAsyncQuery fresh_units_useAsyncQuery)
next
  case (flush s)
  then show ?case by (simp add: sync_state_fields fresh_units_def)
next
  case (run s args)
  then show ?case by (simp add: js_object_run fresh_units_run)
next
  case (reset s)
  then show ?case by (simp add: js_object_reset fresh_units_reset)
next
  case (set_ready s val)
  then show ?case by (simp add: js_object_set_ready fresh_units_set_ready)
next
  case (resolve s uid attempt res)
  then show ?case by (simp add: resolve_eq fresh_units_def)
next
  case (reject s uid attempt err)
  then show ?case by (simp add: reject_eq fresh_units_def)
next
  case (cancel s s')
  then have "queries s' = queries s" "next_uid s' = next_uid s"
    by (auto simp: cancel_def unit_cancel_def setState_eq split: option.splits)
  then show ?case using cancel.IH fresh_units_cong [of s' s] by simp
next
  case (refresh s rp)
  then have "queries (fst rp) = queries s" "next_uid (fst rp) = next_uid s"
    by (auto simp: refresh_def unit_refresh_eq Let_def split: option.splits)
  then show ?case using refresh.IH fresh_units_cong [of "fst rp" s] by simp
next
  case (mutate s v s')
  then have "queries s' = queries s" "next_uid s' = next_uid s"
    by (auto simp: mutate_def unit_mutate_def setState_eq split: option.splits)
  then show ?case using mutate.IH fresh_units_cong [of s' s] by simp
next
  case (tick s t)
  then show ?case by (simp add: fresh_units_def)
qed

lemma reachable_distinct:
  "reachable opts s \<Longrightarrow>
   distinct (Object_keys (queries s)) \<and> distinct (Object_values (queries s))
   \<and> (\<forall>uid \<in> set (Object_values (queries s)). uid < next_uid s)"
  using reachable_well_formed [of opts s]
  by (simp add: js_object_def fresh_units_def Object_keys_def Object_values_def)

lemma lm_reachable_fresh_units:
  "lm_reachable lopts s \<Longrightarrow> fresh_units (reg s)"
proof (induction rule: lm_reachable.induct)
  case (init ready0 st now)
  then show ?case by (simp add: useLoadMore_def Let_def fresh_units_useAsyncQuery)
next
  case (flush s)
  then show ?case by (simp add: lm_flush_def Let_def sync_state_fields fresh_units_def)
next
  case (loadMore s)
  then show ?case
    by (simp add: loadMore_def Let_def fresh_units_run split: option.splits)
next
  case (refresh_start s)
  then show ?case
    by (simp add: lm_refresh_start_def Let_def fresh_units_run split: option.splits)
next
  case (refresh_finish s)
  then show ?case
    by (simp add: lm_refresh_finish_def lm_unmountQueries_def fresh_units_unmount_each)
next
  case (reload_start s)
  then show ?case
    by (simp add: lm_reload_start_def Let_def fresh_units_run fresh_units_reset split: option.splits)
next
  case (reload_finish s)
  then show ?case by (simp add: lm_reload_finish_def)
next
  case (cancel s)
  then show ?case
    by (simp add: lm_cancel_def cancel_def unit_cancel_def fresh_units_setState split: option.splits)
next
  case (resolve s uid attempt res)
  then show ?case by (simp add: lm_resolve_def Let_def resolve_eq fresh_units_def)
next
  case (reject s uid attempt err)
  then show ?case by (simp add: lm_reject_def Let_def reject_eq fresh_units_def)
next
  case (set_ready s val)
  then show ?case by (simp add: lm_set_ready_def fresh_units_set_ready)
next
  case (tick s t)
  then show ?case by (simp add: lm_tick_def fresh_units_def)
next
  case (run s args)
  then show ?case by (simp add: fresh_units_run)
next
  case (reset s)
  then show ?case by (simp add: fresh_units_reset)
qed

lemma lm_reachable_distinct:
  "lm_reachable lopts s \<Longrightarrow>
   distinct (Object_keys (queries (reg s))) \<and> distinct (Object_values (queries (reg s)))"
  using js_object_reachable [of lopts s] lm_reachable_fresh_units [of lopts s]
  by (simp add: js_object_def fresh_units_def Object_keys_def Object_values_def)

end
